theory Spec2Isabelle
  imports Main "HOL-Library.Word" "HOL-Library.Multiset"
begin

unbundle bit_operations_syntax

text \<open>
  A model of the two packages of zkmultisig-node that carry its state: the census builder
  (\<open>censusbuilder\<close>: the stored counter of census identifiers, the registry of loaded
  censuses, the operations on a census) and the ledger of vote packages (\<open>db\<close>: one
  SQLite table). Functions keep the names of the Go source. What the source mutates is
  passed in and returned; an error return is a value, a panic another one; the packages
  the source calls into (the key-value store, the tenant stores, the census itself) are
  parameters.
\<close>

section \<open>Values shared by both packages\<close>

type_synonym byte = "8 word"
type_synonym bytes = "byte list"
type_synonym uint64 = "64 word"

text \<open>
  A Go \<open>error\<close> value is modelled by its message (what \<open>err.Error()\<close> returns).
  A constraint violation reported by SQLite is kept apart from other errors; its argument
  names the column. A run-time panic is not an error value: no \<open>if err != nil\<close> catches
  it, it unwinds the caller.
\<close>

datatype error = Err string | ConstraintViolation string | Panic string

fun Error_msg :: "error \<Rightarrow> string" where
  "Error_msg (Err m) = m"
| "Error_msg (ConstraintViolation c) = ''UNIQUE constraint failed: '' @ c"
| "Error_msg (Panic m) = m"

fun is_panic :: "error \<Rightarrow> bool" where
  "is_panic (Panic m) = True"
| "is_panic e = False"

subsection \<open>Decimal formatting (strconv.Itoa, strconv.FormatUint, the verb %d)\<close>

definition digit_char :: "nat \<Rightarrow> char" where
  "digit_char d = char_of (48 + d)"

function FormatUint :: "nat \<Rightarrow> string" where
  "FormatUint n = (if n < 10 then [digit_char n] else FormatUint (n div 10) @ [digit_char (n mod 10)])"
  by pat_completeness auto
termination
  by (relation "measure (\<lambda>n. n)") auto

declare FormatUint.simps [simp del]

definition Itoa :: "int \<Rightarrow> string" where
  "Itoa i = (if i < 0 then CHR ''-'' # FormatUint (nat (- i)) else FormatUint (nat i))"

subsection \<open>Fixed-width little-endian integers (encoding/binary)\<close>

text \<open>\<open>binary.LittleEndian.PutUint64(b, v)\<close> on a fresh 8-byte slice.\<close>

definition PutUint64 :: "uint64 \<Rightarrow> bytes" where
  "PutUint64 v =
     [ucast v, ucast (drop_bit 8 v), ucast (drop_bit 16 v), ucast (drop_bit 24 v),
      ucast (drop_bit 32 v), ucast (drop_bit 40 v), ucast (drop_bit 48 v), ucast (drop_bit 56 v)]"

text \<open>
  \<open>binary.LittleEndian.Uint64(b)\<close> starts with the bounds check \<open>_ = b[7]\<close>: on a slice
  shorter than 8 bytes it panics, with the run-time's message for an index out of range
  (the index and the length). Bytes after the eighth are ignored.
\<close>

definition Uint64 :: "bytes \<Rightarrow> error + uint64" where
  "Uint64 b =
     (if length b < 8
      then Inl (Panic (''runtime error: index out of range [7] with length '' @ FormatUint (length b)))
      else Inr (ucast (b ! 0) OR push_bit 8 (ucast (b ! 1)) OR push_bit 16 (ucast (b ! 2))
             OR push_bit 24 (ucast (b ! 3)) OR push_bit 32 (ucast (b ! 4))
             OR push_bit 40 (ucast (b ! 5)) OR push_bit 48 (ucast (b ! 6))
             OR push_bit 56 (ucast (b ! 7))))"

subsection \<open>Paths (path/filepath, Unix separator)\<close>

text \<open>
  Modelled from the Go standard library: \<open>filepath.Join\<close> drops leading empty elements,
  joins the rest with the separator and cleans the result; \<open>filepath.Clean\<close> works on the
  elements between separators: it drops empty and \<open>.\<close> elements, lets \<open>..\<close> remove the
  element before it (a \<open>..\<close> that cannot backtrack is kept on a relative path and dropped
  on a rooted one), and turns an empty result into \<open>.\<close>.
\<close>

fun split_path :: "string \<Rightarrow> string list" where
  "split_path [] = [[]]"
| "split_path (c # cs) =
     (if c = CHR ''/'' then [] # split_path cs
      else (case split_path cs of [] \<Rightarrow> [[c]] | x # xs \<Rightarrow> (c # x) # xs))"

text \<open>The elements written so far are kept most recent first.\<close>

definition clean_elem :: "bool \<Rightarrow> string list \<Rightarrow> string \<Rightarrow> string list" where
  "clean_elem rooted out e =
     (if e = [] \<or> e = ''.'' then out
      else if e = ''..'' then
        (case out of
           [] \<Rightarrow> if rooted then [] else [''..'']
         | e' # below \<Rightarrow> if e' = ''..'' then (if rooted then out else ''..'' # out) else below)
      else e # out)"

fun join_elems :: "string list \<Rightarrow> string" where
  "join_elems [] = []"
| "join_elems [e] = e"
| "join_elems (e # es) = e @ CHR ''/'' # join_elems es"

definition Clean :: "string \<Rightarrow> string" where
  "Clean p =
     (if p = [] then ''.''
      else let rooted = (hd p = CHR ''/'');
               out = rev (foldl (clean_elem rooted) [] (split_path p))
           in if rooted then CHR ''/'' # join_elems out
              else if out = [] then ''.'' else join_elems out)"

text \<open>\<open>filepath.Join(a, b)\<close> for two elements.\<close>

definition filepath_Join :: "string \<Rightarrow> string \<Rightarrow> string" where
  "filepath_Join a b =
     (if a \<noteq> [] then Clean (a @ CHR ''/'' # b)
      else if b \<noteq> [] then Clean b
      else [])"

text \<open>
  What a joined path has before its last element; it depends on the directory only
  (see \<open>Join_last_elem\<close> below).
\<close>

definition path_prefix :: "string \<Rightarrow> string" where
  "path_prefix root =
     (if root = [] then []
      else (if hd root = CHR ''/'' then ''/'' else []) @
           concat (map (\<lambda>e. e @ ''/'') (rev (foldl (clean_elem (hd root = CHR ''/'')) [] (split_path root)))))"

section \<open>Package censusbuilder\<close>

subsection \<open>The control store (db.Database) and its transactions\<close>

text \<open>
  The committed content of the key-value store is a map. A write transaction holds the
  content it was opened on and the writes staged so far; reading through it sees its own
  writes; \<open>Commit\<close> applies them; \<open>Discard\<close> drops them (no effect on the store).
\<close>

type_synonym kv = "bytes \<rightharpoonup> bytes"

record WriteTx =
  base :: kv
  pending :: kv

definition db_WriteTx :: "kv \<Rightarrow> WriteTx" where
  "db_WriteTx m = \<lparr>base = m, pending = Map.empty\<rparr>"

definition tx_view :: "WriteTx \<Rightarrow> kv" where
  "tx_view w = base w ++ pending w"

text \<open>
  The packages this one calls into are parameters of the model. The store's operations can
  fail with an I/O error (a message) beside the missing key; opening a tenant store and
  the methods of \<open>census.Census\<close> return an error message or a result, and the methods
  return the object as they leave it. \<open>'d\<close> is an opened tenant store, \<open>'c\<close> the state of a
  census object, \<open>'k\<close> a public key.
\<close>

record Invalid =
  Index :: int
  Error :: string

record ('d, 'c, 'k) ext =
  db_Get_fault :: "bytes \<Rightarrow> string option"
  db_Set_fault :: "bytes \<Rightarrow> bytes \<Rightarrow> string option"
  db_Commit_fault :: "kv \<Rightarrow> string option"
  pebbledb_New :: "string \<Rightarrow> string + 'd"
  census_New :: "'d \<Rightarrow> string + 'c"
  census_Close :: "'c \<Rightarrow> string option \<times> 'c"
  census_Root :: "'c \<Rightarrow> (string + bytes) \<times> 'c"
  census_AddPublicKeys :: "'c \<Rightarrow> 'k list \<Rightarrow> (Invalid list \<times> string option) \<times> 'c"
  census_SetStatus :: "'c \<Rightarrow> WriteTx \<Rightarrow> string \<Rightarrow> (string + WriteTx) \<times> 'c"

definition ErrKeyNotFound :: error where
  "ErrKeyNotFound = Err ''key not found''"

definition tx_Get :: "('d, 'c, 'k) ext \<Rightarrow> kv \<Rightarrow> bytes \<Rightarrow> error + bytes" where
  "tx_Get X m k =
     (case db_Get_fault X k of
        Some e \<Rightarrow> Inl (Err e)
      | None \<Rightarrow> (case m k of None \<Rightarrow> Inl ErrKeyNotFound | Some v \<Rightarrow> Inr v))"

definition tx_Set :: "('d, 'c, 'k) ext \<Rightarrow> WriteTx \<Rightarrow> bytes \<Rightarrow> bytes \<Rightarrow> error + WriteTx" where
  "tx_Set X w k v =
     (case db_Set_fault X k v of
        Some e \<Rightarrow> Inl (Err e)
      | None \<Rightarrow> Inr (w\<lparr>pending := (pending w)(k \<mapsto> v)\<rparr>))"

definition tx_Commit :: "('d, 'c, 'k) ext \<Rightarrow> WriteTx \<Rightarrow> error + kv" where
  "tx_Commit X w =
     (case db_Commit_fault X (pending w) of
        Some e \<Rightarrow> Inl (Err e)
      | None \<Rightarrow> Inr (base w ++ pending w))"

subsection \<open>The CensusBuilder and the process around it\<close>

text \<open>
  \<open>censuses\<close> maps an identifier to a pointer to a census object. No pointer is stored
  twice, so an entry holds the address together with the object it points to: the address
  is the handle's identity, the object changes under the census methods. \<open>next_addr\<close> is
  the next fresh address. \<open>trace\<close> records, oldest first, what the process did outside the
  builder: each call that opens a tenant store (with its path), each call that constructs
  a census object, and each log line (format string and arguments).
\<close>

record 'c handle =
  addr :: nat
  obj :: 'c

datatype event =
    OpenStorage uint64 string
  | ConstructCensus uint64
  | Debugf string "string list"
  | Errorf string "string list"

record 'c CensusBuilder =
  subDBsPath :: string
  db :: kv
  censuses :: "uint64 \<rightharpoonup> 'c handle"
  next_addr :: nat
  trace :: "event list"

definition emit :: "event \<Rightarrow> 'c CensusBuilder \<Rightarrow> 'c CensusBuilder" where
  "emit e cb = cb\<lparr>trace := trace cb @ [e]\<rparr>"

definition dbKeyNextCensusID :: bytes where
  "dbKeyNextCensusID = map (\<lambda>c. of_nat (of_char c)) ''nextCensusID''"

definition setNextCensusID :: "('d, 'c, 'k) ext \<Rightarrow> WriteTx \<Rightarrow> uint64 \<Rightarrow> error + WriteTx" where
  "setNextCensusID X wTx nextCensusID = tx_Set X wTx dbKeyNextCensusID (PutUint64 nextCensusID)"

definition getNextCensusID :: "('d, 'c, 'k) ext \<Rightarrow> kv \<Rightarrow> error + uint64" where
  "getNextCensusID X rTx =
     (case tx_Get X rTx dbKeyNextCensusID of
        Inl err \<Rightarrow> Inl err
      | Inr b \<Rightarrow> Uint64 b)"

text \<open>
  \<open>New\<close>: any error of the read (not only the missing key) makes it write 0; a panic of the
  read is not an error value and unwinds. On failure no builder is returned and the
  transaction is discarded: the store stays as it was.
\<close>

definition New :: "('d, 'c, 'k) ext \<Rightarrow> kv \<Rightarrow> string \<Rightarrow> error + 'c CensusBuilder" where
  "New X database path =
     (let cb = \<lparr>subDBsPath = path, db = database, censuses = Map.empty, next_addr = 0, trace = []\<rparr>;
          wTx = db_WriteTx database;
          commit = (\<lambda>w. case tx_Commit X w of
                            Inl err \<Rightarrow> Inl err
                          | Inr db' \<Rightarrow> Inr (cb\<lparr>db := db'\<rparr>))
      in case getNextCensusID X (tx_view wTx) of
           Inr n \<Rightarrow> commit wTx
         | Inl err \<Rightarrow>
             if is_panic err then Inl err
             else (case setNextCensusID X wTx 0 of
                     Inl err' \<Rightarrow> Inl err'
                   | Inr wTx' \<Rightarrow> commit wTx'))"

definition censusPath :: "string \<Rightarrow> uint64 \<Rightarrow> string" where
  "censusPath root censusID = filepath_Join root (Itoa (sint censusID))"

definition loadCensusIfNotYet ::
  "('d, 'c, 'k) ext \<Rightarrow> 'c CensusBuilder \<Rightarrow> uint64 \<Rightarrow> error option \<times> 'c CensusBuilder" where
  "loadCensusIfNotYet X cb censusID =
     (case censuses cb censusID of
        Some h \<Rightarrow> (None, cb)
      | None \<Rightarrow>
          (let path = censusPath (subDBsPath cb) censusID;
               cb1 = emit (OpenStorage censusID path) cb
           in case pebbledb_New X path of
                Inl err \<Rightarrow> (Some (Err err), cb1)
              | Inr database \<Rightarrow>
                  (let cb2 = emit (ConstructCensus censusID) cb1
                   in case census_New X database of
                        Inl err \<Rightarrow> (Some (Err err), cb2)
                      | Inr c \<Rightarrow>
                          (None, cb2\<lparr>censuses := (censuses cb2)(censusID \<mapsto> \<lparr>addr = next_addr cb2, obj = c\<rparr>),
                                     next_addr := Suc (next_addr cb2)\<rparr>))))"

definition NewCensus ::
  "('d, 'c, 'k) ext \<Rightarrow> 'c CensusBuilder \<Rightarrow> (error + uint64) \<times> 'c CensusBuilder" where
  "NewCensus X cb =
     (case getNextCensusID X (db cb) of
        Inl err \<Rightarrow> (Inl err, cb)
      | Inr nextCensusID \<Rightarrow>
          (case loadCensusIfNotYet X cb nextCensusID of
             (Some err, cb1) \<Rightarrow> (Inl err, cb1)
           | (None, cb1) \<Rightarrow>
               (case setNextCensusID X (db_WriteTx (db cb1)) (nextCensusID + 1) of
                  Inl err \<Rightarrow> (Inl err, cb1)
                | Inr wTx \<Rightarrow>
                    (case tx_Commit X wTx of
                       Inl err \<Rightarrow> (Inl err, cb1)
                     | Inr db' \<Rightarrow>
                         (Inr nextCensusID,
                          emit (Debugf ''[CensusID=%d] New census created''
                                  [FormatUint (unat nextCensusID)])
                            (cb1\<lparr>db := db'\<rparr>))))))"

text \<open>
  \<open>cb.censuses[censusID].M(...)\<close>: indexing a missing key gives the nil pointer, and the
  method call on it panics.
\<close>

definition nil_deref :: error where
  "nil_deref = Panic ''runtime error: invalid memory address or nil pointer dereference''"

definition CloseCensus ::
  "('d, 'c, 'k) ext \<Rightarrow> 'c CensusBuilder \<Rightarrow> uint64 \<Rightarrow> error option \<times> 'c CensusBuilder" where
  "CloseCensus X cb censusID =
     (case loadCensusIfNotYet X cb censusID of
        (Some err, cb1) \<Rightarrow> (Some err, cb1)
      | (None, cb1) \<Rightarrow>
          (case censuses cb1 censusID of
             None \<Rightarrow> (Some nil_deref, cb1)
           | Some h \<Rightarrow>
               (case census_Close X (obj h) of
                  (r, c') \<Rightarrow> (map_option Err r,
                              cb1\<lparr>censuses := (censuses cb1)(censusID \<mapsto> h\<lparr>obj := c'\<rparr>)\<rparr>))))"

definition CensusRoot ::
  "('d, 'c, 'k) ext \<Rightarrow> 'c CensusBuilder \<Rightarrow> uint64 \<Rightarrow> (error + bytes) \<times> 'c CensusBuilder" where
  "CensusRoot X cb censusID =
     (case loadCensusIfNotYet X cb censusID of
        (Some err, cb1) \<Rightarrow> (Inl err, cb1)
      | (None, cb1) \<Rightarrow>
          (case censuses cb1 censusID of
             None \<Rightarrow> (Inl nil_deref, cb1)
           | Some h \<Rightarrow>
               (case census_Root X (obj h) of
                  (r, c') \<Rightarrow>
                    ((case r of
                        Inl err \<Rightarrow> Inl (Err (''Can not get the CensusRoot, '' @ err))
                      | Inr root \<Rightarrow> Inr root),
                     cb1\<lparr>censuses := (censuses cb1)(censusID \<mapsto> h\<lparr>obj := c'\<rparr>)\<rparr>))))"

definition CensusInfo ::
  "('d, 'c, 'k) ext \<Rightarrow> 'c CensusBuilder \<Rightarrow> uint64 \<Rightarrow> (error + string) \<times> 'c CensusBuilder" where
  "CensusInfo X cb censusID =
     (Inr (''WIP, this will return info about CensusID: '' @ FormatUint (unat censusID)), cb)"

definition AddPublicKeys ::
  "('d, 'c, 'k) ext \<Rightarrow> 'c CensusBuilder \<Rightarrow> uint64 \<Rightarrow> 'k list \<Rightarrow> error option \<times> 'c CensusBuilder" where
  "AddPublicKeys X cb censusID pubKs =
     (case loadCensusIfNotYet X cb censusID of
        (Some err, cb1) \<Rightarrow> (Some err, cb1)
      | (None, cb1) \<Rightarrow>
          (case censuses cb1 censusID of
             None \<Rightarrow> (Some nil_deref, cb1)
           | Some h \<Rightarrow>
               (case census_AddPublicKeys X (obj h) pubKs of
                  ((invalids, r), c') \<Rightarrow>
                    (let cb2 = cb1\<lparr>censuses := (censuses cb1)(censusID \<mapsto> h\<lparr>obj := c'\<rparr>)\<rparr>
                     in case r of
                          Some err \<Rightarrow> (Some (Err err), cb2)
                        | None \<Rightarrow>
                            (case invalids of
                               i0 # rest \<Rightarrow>
                                 (Some (Err (''CensusBuilder.AddPublicKeys error: ''
                                       @ Itoa (int (length invalids))
                                       @ '' invalid keys, invalid msg for key ''
                                       @ Itoa (Index i0) @ '': '' @ Invalid.Error i0)), cb2)
                             | [] \<Rightarrow>
                                 (None,
                                  emit (Debugf ''[CensusID=%d] %d PublicKeys added''
                                          [FormatUint (unat censusID), Itoa (int (length pubKs))])
                                    cb2))))))"

definition SetStatus ::
  "('d, 'c, 'k) ext \<Rightarrow> 'c CensusBuilder \<Rightarrow> uint64 \<Rightarrow> string \<Rightarrow> error option \<times> 'c CensusBuilder" where
  "SetStatus X cb censusID status =
     (case loadCensusIfNotYet X cb censusID of
        (Some err, cb1) \<Rightarrow> (Some err, cb1)
      | (None, cb1) \<Rightarrow>
          (case censuses cb1 censusID of
             None \<Rightarrow> (Some nil_deref, cb1)
           | Some h \<Rightarrow>
               (case census_SetStatus X (obj h) (db_WriteTx (db cb1)) status of
                  (r, c') \<Rightarrow>
                    (let cb2 = cb1\<lparr>censuses := (censuses cb1)(censusID \<mapsto> h\<lparr>obj := c'\<rparr>)\<rparr>
                     in case r of
                          Inl err \<Rightarrow> (Some (Err err), cb2)
                        | Inr wTx \<Rightarrow>
                            (case tx_Commit X wTx of
                               Inl err \<Rightarrow> (Some err, cb2)
                             | Inr db' \<Rightarrow> (None, cb2\<lparr>db := db'\<rparr>))))))"

text \<open>
  \<open>AddPublicKeysAndStoreError\<close> has no result in the source. The first component here is
  a panic that unwinds through it, if any; an error value is never handed to the caller.
\<close>

definition AddPublicKeysAndStoreError ::
  "('d, 'c, 'k) ext \<Rightarrow> 'c CensusBuilder \<Rightarrow> uint64 \<Rightarrow> 'k list \<Rightarrow> error option \<times> 'c CensusBuilder" where
  "AddPublicKeysAndStoreError X cb censusID pubKs =
     (case AddPublicKeys X cb censusID pubKs of
        (None, cb1) \<Rightarrow> (None, cb1)
      | (Some err, cb1) \<Rightarrow>
          if is_panic err then (Some err, cb1)
          else
            (let cb2 = emit (Debugf ''[CensusID=%d] error: %s'' [Error_msg err]) cb1
             in case SetStatus X cb2 censusID (Error_msg err) of
                  (None, cb3) \<Rightarrow> (None, cb3)
                | (Some err2, cb3) \<Rightarrow>
                    if is_panic err2 then (Some err2, cb3)
                    else (None,
                          emit (Errorf ''Error while trying to store CensusID:%d status: %s. Error: %s''
                                  [FormatUint (unat censusID), Error_msg err, Error_msg err2])
                            cb3)))"

subsection \<open>Sequences of calls\<close>


text \<open>The public methods as operations of one process; \<open>run_ops\<close> keeps the builder only.\<close>

datatype 'k op =
    OpNewCensus
  | OpCloseCensus uint64
  | OpCensusRoot uint64
  | OpCensusInfo uint64
  | OpAddPublicKeys uint64 "'k list"
  | OpAddPublicKeysAndStoreError uint64 "'k list"
  | OpSetStatus uint64 string

fun run_op :: "('d, 'c, 'k) ext \<Rightarrow> 'c CensusBuilder \<Rightarrow> 'k op \<Rightarrow> 'c CensusBuilder" where
  "run_op X cb OpNewCensus = snd (NewCensus X cb)"
| "run_op X cb (OpCloseCensus i) = snd (CloseCensus X cb i)"
| "run_op X cb (OpCensusRoot i) = snd (CensusRoot X cb i)"
| "run_op X cb (OpCensusInfo i) = snd (CensusInfo X cb i)"
| "run_op X cb (OpAddPublicKeys i ks) = snd (AddPublicKeys X cb i ks)"
| "run_op X cb (OpAddPublicKeysAndStoreError i ks) = snd (AddPublicKeysAndStoreError X cb i ks)"
| "run_op X cb (OpSetStatus i st) = snd (SetStatus X cb i st)"

definition run_ops :: "('d, 'c, 'k) ext \<Rightarrow> 'c CensusBuilder \<Rightarrow> 'k op list \<Rightarrow> 'c CensusBuilder" where
  "run_ops X cb ops = foldl (run_op X) cb ops"

text \<open>The calls that opened a store or constructed a census for one identifier.\<close>

fun touches :: "uint64 \<Rightarrow> event \<Rightarrow> bool" where
  "touches i (OpenStorage j p) = (i = j)"
| "touches i (ConstructCensus j) = (i = j)"
| "touches i e = False"

definition loads_of :: "uint64 \<Rightarrow> 'c CensusBuilder \<Rightarrow> event list" where
  "loads_of i cb = filter (touches i) (trace cb)"

text \<open>
  What the registry promises about one identifier between two states of a process: an
  entry that was there is still there with the same address, and no store was opened and
  no census constructed for it in between.
\<close>

definition keeps :: "uint64 \<Rightarrow> 'c CensusBuilder \<Rightarrow> 'c CensusBuilder \<Rightarrow> bool" where
  "keeps j cb cb' \<longleftrightarrow>
     (\<forall>h. censuses cb j = Some h \<longrightarrow>
        (\<exists>h'. censuses cb' j = Some h' \<and> addr h' = addr h) \<and> loads_of j cb' = loads_of j cb)"

text \<open>
  The registry of a process: finitely many entries, as many as addresses were handed out,
  every address below the next fresh one, and no address under two identifiers.
\<close>

definition registry_ok :: "'c CensusBuilder \<Rightarrow> bool" where
  "registry_ok cb \<longleftrightarrow>
     finite (dom (censuses cb)) \<and> card (dom (censuses cb)) = next_addr cb \<and>
     (\<forall>i h. censuses cb i = Some h \<longrightarrow> addr h < next_addr cb) \<and>
     (\<forall>i j h h'. censuses cb i = Some h \<and> censuses cb j = Some h' \<and> addr h = addr h' \<longrightarrow> i = j)"


section \<open>Package db: the ledger of vote packages\<close>

text \<open>
  Modelled from the spec: the declaration of \<open>types.VotePackage\<close> is not among the
  sources. Its fields are the ones \<open>StoreVotePackage\<close> and
  \<open>ReadVotePackagesByCensusRoot\<close> use: a signature (a 64-byte array, of which the source
  takes and fills the slice \<open>Signature[:]\<close>), and under \<open>CensusProof\<close> an integer index,
  a public key and a Merkle proof (binary values), and the vote (binary). A binary value
  is a list of bytes; a nil slice, which a driver may bind as NULL for the NOT NULL
  columns to refuse, is not a value of the model.
\<close>

record CensusProof =
  Index :: int
  PublicKey :: bytes
  MerkleProof :: bytes

record VotePackage =
  Signature :: bytes
  CensusProof :: CensusProof
  Vote :: bytes

text \<open>
  One row of the table \<open>votepackages\<close> that \<open>Migrate\<close> creates. \<open>insertedDatetime\<close> is
  \<open>CURRENT_TIMESTAMP\<close>, the clock read in whole seconds.
\<close>

record votepackages_row =
  censusRoot :: bytes
  signature :: bytes
  indx :: int
  publicKey :: bytes
  merkleproof :: bytes
  vote :: bytes
  insertedDatetime :: nat

text \<open>The database: whether the table exists, and its rows, oldest insertion first.\<close>

record SQLite =
  migrated :: bool
  votepackages :: "votepackages_row list"

definition no_such_table :: error where
  "no_such_table = Err ''no such table: votepackages''"

text \<open>\<open>CREATE TABLE IF NOT EXISTS\<close>: an existing table keeps its rows.\<close>

definition Migrate :: "SQLite \<Rightarrow> error option \<times> SQLite" where
  "Migrate r = (None, r\<lparr>migrated := True\<rparr>)"

text \<open>
  \<open>StoreVotePackage\<close>: the INSERT is refused when a row already has the same \<open>indx\<close>
  (PRIMARY KEY UNIQUE), the same \<open>publicKey\<close> (UNIQUE) or the same \<open>merkleproof\<close>
  (UNIQUE), on any census root; a refused INSERT changes nothing. SQLite names the first
  column it finds violated: the primary key, then the unique columns from the one
  declared last. \<open>now\<close> is the clock.
\<close>

definition new_row :: "nat \<Rightarrow> bytes \<Rightarrow> VotePackage \<Rightarrow> votepackages_row" where
  "new_row now root v =
     \<lparr>censusRoot = root, signature = Signature v, indx = Index (CensusProof v),
      publicKey = PublicKey (CensusProof v), merkleproof = MerkleProof (CensusProof v),
      vote = Vote v, insertedDatetime = now\<rparr>"

definition StoreVotePackage ::
  "nat \<Rightarrow> SQLite \<Rightarrow> bytes \<Rightarrow> VotePackage \<Rightarrow> error option \<times> SQLite" where
  "StoreVotePackage now r root v =
     (if \<not> migrated r then (Some no_such_table, r)
      else if \<exists>x \<in> set (votepackages r). indx x = Index (CensusProof v)
        then (Some (ConstraintViolation ''votepackages.indx''), r)
      else if \<exists>x \<in> set (votepackages r). merkleproof x = MerkleProof (CensusProof v)
        then (Some (ConstraintViolation ''votepackages.merkleproof''), r)
      else if \<exists>x \<in> set (votepackages r). publicKey x = PublicKey (CensusProof v)
        then (Some (ConstraintViolation ''votepackages.publicKey''), r)
      else (None, r\<lparr>votepackages := votepackages r @ [new_row now root v]\<rparr>))"

text \<open>\<open>copy(vote.Signature[:], sigBytes)\<close> into the zeroed 64-byte array.\<close>

definition copy64 :: "bytes \<Rightarrow> bytes" where
  "copy64 b = take 64 b @ replicate (64 - length b) 0"

definition scan_row :: "votepackages_row \<Rightarrow> VotePackage" where
  "scan_row x =
     \<lparr>Signature = copy64 (signature x),
      CensusProof = \<lparr>Index = indx x, PublicKey = publicKey x, MerkleProof = merkleproof x\<rparr>,
      Vote = vote x\<rparr>"

text \<open>
  The SELECT: the table is read in the order of its integer primary key, the rows of the
  census root are kept, and \<open>ORDER BY datetime(InsertedDatetime) DESC\<close> sorts them,
  leaving rows of the same second in the order they were read.
\<close>

definition select_by_root :: "SQLite \<Rightarrow> bytes \<Rightarrow> votepackages_row list" where
  "select_by_root r root =
     sort_key (\<lambda>x. - int (insertedDatetime x))
       (filter (\<lambda>x. censusRoot x = root) (sort_key indx (votepackages r)))"

definition ReadVotePackagesByCensusRoot :: "SQLite \<Rightarrow> bytes \<Rightarrow> error + VotePackage list" where
  "ReadVotePackagesByCensusRoot r root =
     (if \<not> migrated r then Inl no_such_table
      else Inr (map scan_row (select_by_root r root)))"

section \<open>An environment for worked examples\<close>

text \<open>
  A small instance of the packages around the builder: a control store that never faults,
  tenant stores that always open (an opened store is its path), and a census that keeps
  its keys in a list, rejects the key 0, has a root once it has a member, and writes its
  status under one key of the transaction it is handed.
\<close>

record toy_census =
  members :: "nat list"
  is_closed :: bool

fun toy_invalids :: "nat \<Rightarrow> nat list \<Rightarrow> Invalid list" where
  "toy_invalids i [] = []"
| "toy_invalids i (k # ks) =
     (if k = 0 then \<lparr>Invalid.Index = int i, Invalid.Error = ''invalid key''\<rparr> # toy_invalids (Suc i) ks
      else toy_invalids (Suc i) ks)"

definition bytes_of :: "string \<Rightarrow> bytes" where
  "bytes_of s = map (\<lambda>c. of_nat (of_char c)) s"

definition sample_env :: "(string, toy_census, nat) ext" where
  "sample_env =
     \<lparr>db_Get_fault = (\<lambda>k. None),
      db_Set_fault = (\<lambda>k v. None),
      db_Commit_fault = (\<lambda>w. None),
      pebbledb_New = (\<lambda>p. Inr p),
      census_New = (\<lambda>d. Inr \<lparr>members = [], is_closed = False\<rparr>),
      census_Close = (\<lambda>c. (None, c\<lparr>is_closed := True\<rparr>)),
      census_Root = (\<lambda>c. (if members c = [] then Inl ''empty census''
                            else Inr (map of_nat (members c)), c)),
      census_AddPublicKeys =
        (\<lambda>c ks. ((toy_invalids 0 ks, None), c\<lparr>members := members c @ filter (\<lambda>k. k \<noteq> 0) ks\<rparr>)),
      census_SetStatus =
        (\<lambda>c w st. (Inr (w\<lparr>pending := (pending w)(bytes_of ''status'' \<mapsto> bytes_of st)\<rparr>), c))\<rparr>"

text \<open>The builder of a process that has created census 0 under the directory \<open>data\<close>.\<close>

definition sample_builder :: "toy_census CensusBuilder" where
  "sample_builder =
     \<lparr>subDBsPath = ''data'',
      db = [dbKeyNextCensusID \<mapsto> PutUint64 1],
      censuses = [0 \<mapsto> \<lparr>addr = 0, obj = \<lparr>members = [], is_closed = False\<rparr>\<rparr>],
      next_addr = 1,
      trace = [OpenStorage 0 (censusPath ''data'' 0), ConstructCensus 0]\<rparr>"

text \<open>
  A freshly migrated ledger, and vote packages that differ in every unique column.
\<close>

definition fresh_ledger :: SQLite where
  "fresh_ledger = snd (Migrate \<lparr>migrated = False, votepackages = []\<rparr>)"

definition sample_package :: "nat \<Rightarrow> VotePackage" where
  "sample_package k =
     \<lparr>Signature = replicate 64 (of_nat k),
      CensusProof = \<lparr>Index = int k, PublicKey = [of_nat k], MerkleProof = [of_nat k, of_nat k]\<rparr>,
      Vote = [of_nat k]\<rparr>"

section \<open>Decimal strings of small numbers\<close>

lemma digit_chars:
  "digit_char 0 = CHR ''0''" "digit_char 1 = CHR ''1''" "digit_char 2 = CHR ''2''"
  "digit_char 3 = CHR ''3''" "digit_char 4 = CHR ''4''" "digit_char 5 = CHR ''5''"
  "digit_char 6 = CHR ''6''" "digit_char 7 = CHR ''7''" "digit_char 8 = CHR ''8''"
  "digit_char 9 = CHR ''9''" "digit_char (Suc 0) = CHR ''1''"
  by code_simp+

lemma FormatUint_small: "n < 10 \<Longrightarrow> FormatUint n = [digit_char n]"
  by (simp add: FormatUint.simps)

lemma FormatUint_Suc3: "FormatUint (Suc (Suc (Suc 0))) = ''3''"
proof -
  have "FormatUint (Suc (Suc (Suc 0))) = FormatUint 3" by (simp only: numeral_3_eq_3)
  then show ?thesis by (simp add: FormatUint_small digit_chars)
qed

section \<open>The stored counter\<close>

lemma split8: "(x::uint64) = ucast (ucast x :: byte) OR push_bit 8 (drop_bit 8 x)"
proof (rule bit_word_eqI)
  fix n assume "n < LENGTH(64)"
  then show "bit x n = bit (ucast (ucast x :: byte) OR push_bit 8 (drop_bit 8 x)) n"
    by (cases "n < 8") (auto simp add: bit_simps)
qed

lemma drop56: "push_bit 8 (drop_bit 8 (drop_bit 56 (v::uint64))) = 0"
  by (rule bit_word_eqI) (auto simp add: bit_simps dest: bit_imp_le_length)

lemma byte_bit: "bit (b::byte) n \<Longrightarrow> n < 8"
  using bit_imp_le_length[of b n] by simp

text \<open>Decoding what was encoded gives the value back.\<close>

lemma Uint64_PutUint64: "Uint64 (PutUint64 v) = Inr v"
proof -
  have "v = ucast (ucast v :: byte) OR push_bit 8 (drop_bit 8 v)" by (rule split8)
  also have "drop_bit 8 v = ucast (ucast (drop_bit 8 v) :: byte) OR push_bit 8 (drop_bit 8 (drop_bit 8 v))"
    by (rule split8)
  also have "drop_bit 8 (drop_bit 8 v) = ucast (ucast (drop_bit 16 v) :: byte) OR push_bit 8 (drop_bit 8 (drop_bit 16 v))"
    using split8[of "drop_bit 16 v"] by simp
  also have "drop_bit 8 (drop_bit 16 v) = ucast (ucast (drop_bit 24 v) :: byte) OR push_bit 8 (drop_bit 8 (drop_bit 24 v))"
    using split8[of "drop_bit 24 v"] by simp
  also have "drop_bit 8 (drop_bit 24 v) = ucast (ucast (drop_bit 32 v) :: byte) OR push_bit 8 (drop_bit 8 (drop_bit 32 v))"
    using split8[of "drop_bit 32 v"] by simp
  also have "drop_bit 8 (drop_bit 32 v) = ucast (ucast (drop_bit 40 v) :: byte) OR push_bit 8 (drop_bit 8 (drop_bit 40 v))"
    using split8[of "drop_bit 40 v"] by simp
  also have "drop_bit 8 (drop_bit 40 v) = ucast (ucast (drop_bit 48 v) :: byte) OR push_bit 8 (drop_bit 8 (drop_bit 48 v))"
    using split8[of "drop_bit 48 v"] by simp
  also have "drop_bit 8 (drop_bit 48 v) = ucast (ucast (drop_bit 56 v) :: byte) OR push_bit 8 (drop_bit 8 (drop_bit 56 v))"
    using split8[of "drop_bit 56 v"] by simp
  finally have "v = ucast (ucast v :: byte) OR push_bit 8 (ucast (ucast (drop_bit 8 v) :: byte))
       OR push_bit 16 (ucast (ucast (drop_bit 16 v) :: byte)) OR push_bit 24 (ucast (ucast (drop_bit 24 v) :: byte))
       OR push_bit 32 (ucast (ucast (drop_bit 32 v) :: byte)) OR push_bit 40 (ucast (ucast (drop_bit 40 v) :: byte))
       OR push_bit 48 (ucast (ucast (drop_bit 48 v) :: byte)) OR push_bit 56 (ucast (ucast (drop_bit 56 v) :: byte))"
    by (simp add: drop56 push_bit_or push_bit_push_bit or.assoc del: push_bit_of_nat)
  then show ?thesis
    unfolding Uint64_def PutUint64_def by simp
qed

text \<open>Encoding what was decoded gives the eight bytes back.\<close>

lemma PutUint64_le:
  "PutUint64 (ucast b0 OR push_bit 8 (ucast b1) OR push_bit 16 (ucast b2)
             OR push_bit 24 (ucast b3) OR push_bit 32 (ucast b4)
             OR push_bit 40 (ucast b5) OR push_bit 48 (ucast b6)
             OR push_bit 56 (ucast b7)) = [b0, b1, b2, b3, b4, b5, b6, b7]"
  unfolding PutUint64_def
  apply (simp only: list.inject simp_thms)
  apply (intro conjI)
  subgoal by (rule bit_word_eqI) (auto simp add: bit_simps dest: byte_bit)
  subgoal by (rule bit_word_eqI) (auto simp add: bit_simps dest: byte_bit)
  subgoal by (rule bit_word_eqI) (auto simp add: bit_simps dest: byte_bit)
  subgoal by (rule bit_word_eqI) (auto simp add: bit_simps dest: byte_bit)
  subgoal by (rule bit_word_eqI) (auto simp add: bit_simps dest: byte_bit)
  subgoal by (rule bit_word_eqI) (auto simp add: bit_simps dest: byte_bit)
  subgoal by (rule bit_word_eqI) (auto simp add: bit_simps dest: byte_bit)
  subgoal by (rule bit_word_eqI) (auto simp add: bit_simps dest: byte_bit)
  done

lemma take8: "8 \<le> length b \<Longrightarrow> take 8 b = [b!0, b!1, b!2, b!3, b!4, b!5, b!6, b!7]"
  by (simp add: list_eq_iff_nth_eq nth_Cons' numeral_eq_Suc less_Suc_eq)

lemma Uint64_long: "8 \<le> length b \<Longrightarrow> \<exists>n. Uint64 b = Inr n \<and> PutUint64 n = take 8 b"
  by (simp add: Uint64_def PutUint64_le take8)

lemma Uint64_short:
  "length b < 8 \<Longrightarrow>
   Uint64 b = Inl (Panic (''runtime error: index out of range [7] with length '' @ FormatUint (length b)))"
  by (simp add: Uint64_def)

lemma length_PutUint64 [simp]: "length (PutUint64 v) = 8"
  by (simp add: PutUint64_def)

lemma Uint64_PutUint64_append: "Uint64 (PutUint64 v @ extra) = Inr v"
proof -
  have "Uint64 (PutUint64 v @ extra) = Uint64 (PutUint64 v)"
    by (simp add: Uint64_def nth_append)
  then show ?thesis by (simp add: Uint64_PutUint64)
qed

text \<open>
  C9, as amended. \<open>getNextCensusID\<close> is total, with four outcomes. A fault of the read and
  a missing key come back as error values. A stored value of 8 bytes or more is decoded
  from its first 8 bytes, little-endian, without any error (bytes beyond the eighth are
  ignored; what \<open>setNextCensusID\<close> wrote is read back). A stored value of fewer than 8
  bytes does not give an error value: the decoding panics.
\<close>

theorem getNextCensusID_outcomes:
  "(\<forall>e. db_Get_fault X dbKeyNextCensusID = Some e \<longrightarrow> getNextCensusID X m = Inl (Err e)) \<and>
   (db_Get_fault X dbKeyNextCensusID = None \<longrightarrow>
      (m dbKeyNextCensusID = None \<longrightarrow> getNextCensusID X m = Inl ErrKeyNotFound) \<and>
      (\<forall>b. m dbKeyNextCensusID = Some b \<and> 8 \<le> length b \<longrightarrow>
           (\<exists>n. getNextCensusID X m = Inr n \<and> PutUint64 n = take 8 b)) \<and>
      (\<forall>v extra. m dbKeyNextCensusID = Some (PutUint64 v @ extra) \<longrightarrow> getNextCensusID X m = Inr v) \<and>
      (\<forall>b. m dbKeyNextCensusID = Some b \<and> length b < 8 \<longrightarrow>
           getNextCensusID X m =
             Inl (Panic (''runtime error: index out of range [7] with length '' @ FormatUint (length b)))))"
  by (auto simp add: getNextCensusID_def tx_Get_def Uint64_short Uint64_PutUint64_append
      dest: Uint64_long)

theorem getNextCensusID_outcomes_witness:
  "db_Get_fault sample_env dbKeyNextCensusID = None \<and>
   [dbKeyNextCensusID \<mapsto> PutUint64 5 @ [7]] dbKeyNextCensusID = Some (PutUint64 5 @ [7]) \<and>
   8 \<le> length (PutUint64 5 @ [7]) \<and>
   getNextCensusID sample_env [dbKeyNextCensusID \<mapsto> PutUint64 5 @ [7]] = Inr 5 \<and>
   getNextCensusID sample_env Map.empty = Inl ErrKeyNotFound \<and>
   length [1, 2, 3 :: byte] < 8 \<and>
   getNextCensusID sample_env [dbKeyNextCensusID \<mapsto> [1, 2, 3]]
     = Inl (Panic ''runtime error: index out of range [7] with length 3'') \<and>
   db_Get_fault (sample_env\<lparr>db_Get_fault := (\<lambda>k. Some ''input/output error'')\<rparr>) dbKeyNextCensusID
     = Some ''input/output error'' \<and>
   getNextCensusID (sample_env\<lparr>db_Get_fault := (\<lambda>k. Some ''input/output error'')\<rparr>)
     [dbKeyNextCensusID \<mapsto> PutUint64 5] = Inl (Err ''input/output error'')"
  using getNextCensusID_outcomes [of sample_env "[dbKeyNextCensusID \<mapsto> PutUint64 5 @ [7]]"]
    getNextCensusID_outcomes [of sample_env Map.empty]
    getNextCensusID_outcomes [of sample_env "[dbKeyNextCensusID \<mapsto> [1, 2, 3]]"]
    getNextCensusID_outcomes [of "sample_env\<lparr>db_Get_fault := (\<lambda>k. Some ''input/output error'')\<rparr>"
      "[dbKeyNextCensusID \<mapsto> PutUint64 5]"]
  by (simp add: sample_env_def FormatUint_Suc3)

text \<open>
  C9 as stated fails: with the three bytes 1, 2, 3 stored under the counter key the read
  ends in a panic, not in an error value.
\<close>

theorem getNextCensusID_short_value_panics:
  "getNextCensusID sample_env [dbKeyNextCensusID \<mapsto> [1, 2, 3]]
     = Inl (Panic ''runtime error: index out of range [7] with length 3'') \<and>
   is_panic (Panic ''runtime error: index out of range [7] with length 3'')"
  by (simp add: getNextCensusID_def tx_Get_def sample_env_def Uint64_def FormatUint_Suc3)

section \<open>The registry of loaded censuses\<close>

lemma load_cached: "censuses cb i = Some h \<Longrightarrow> loadCensusIfNotYet X cb i = (None, cb)"
  by (simp add: loadCensusIfNotYet_def)

lemma load_ok_cached:
  assumes "loadCensusIfNotYet X cb i = (None, cb1)"
  shows "\<exists>h. censuses cb1 i = Some h"
  using assms
  by (auto simp add: loadCensusIfNotYet_def emit_def Let_def split: option.splits sum.splits)

lemma load_error:
  assumes "loadCensusIfNotYet X cb i = (Some e, cb1)"
  shows "\<not> is_panic e" and "censuses cb1 = censuses cb" and "next_addr cb1 = next_addr cb"
  using assms
  by (auto simp add: loadCensusIfNotYet_def emit_def Let_def split: option.splits sum.splits)

lemma keeps_refl [simp]: "keeps j cb cb"
  by (simp add: keeps_def)

lemma keeps_trans: "keeps j a b \<Longrightarrow> keeps j b c \<Longrightarrow> keeps j a c"
  by (fastforce simp add: keeps_def)

lemma keeps_load: "loadCensusIfNotYet X cb i = (r, cb1) \<Longrightarrow> keeps j cb cb1"
  by (auto simp add: keeps_def loadCensusIfNotYet_def emit_def loads_of_def Let_def
      split: option.splits sum.splits)

lemma ok_trace: "registry_ok (cb\<lparr>trace := t\<rparr>) = registry_ok cb"
  by (simp add: registry_ok_def)

lemma ok_obj:
  assumes "censuses cb i = Some h" and "registry_ok cb"
  shows "registry_ok (cb\<lparr>censuses := (censuses cb)(i \<mapsto> h\<lparr>obj := c\<rparr>)\<rparr>)"
proof -
  have d: "insert i (dom (censuses cb)) = dom (censuses cb)"
    using assms(1) by auto
  show ?thesis
    using assms unfolding registry_ok_def
    by (simp add: d) (metis (no_types, lifting))
qed

lemma ok_new_entry:
  assumes "censuses cb i = None" and "registry_ok cb"
  shows "registry_ok (cb\<lparr>trace := t, censuses := (censuses cb)(i \<mapsto> \<lparr>addr = next_addr cb, obj = c\<rparr>),
                          next_addr := Suc (next_addr cb)\<rparr>)"
proof -
  have ni: "i \<notin> dom (censuses cb)" using assms(1) by auto
  have fin: "finite (dom (censuses cb))" and card: "card (dom (censuses cb)) = next_addr cb"
    and lt: "\<And>j h. censuses cb j = Some h \<Longrightarrow> addr h < next_addr cb"
    and inj: "\<And>j k h h'. censuses cb j = Some h \<Longrightarrow> censuses cb k = Some h' \<Longrightarrow> addr h = addr h' \<Longrightarrow> j = k"
    using assms(2) unfolding registry_ok_def by blast+
  have "card (insert i (dom (censuses cb))) = Suc (next_addr cb)"
    using fin ni card by simp
  moreover have "\<And>j h. ((censuses cb)(i \<mapsto> \<lparr>addr = next_addr cb, obj = c\<rparr>)) j = Some h \<Longrightarrow> addr h < Suc (next_addr cb)"
    using lt by (auto simp add: less_Suc_eq split: if_splits)
  moreover have "\<And>j k h h'. ((censuses cb)(i \<mapsto> \<lparr>addr = next_addr cb, obj = c\<rparr>)) j = Some h \<Longrightarrow>
       ((censuses cb)(i \<mapsto> \<lparr>addr = next_addr cb, obj = c\<rparr>)) k = Some h' \<Longrightarrow> addr h = addr h' \<Longrightarrow> j = k"
    using lt inj by (fastforce split: if_splits)
  ultimately show ?thesis
    unfolding registry_ok_def using fin by (simp del: fun_upd_apply)
qed

lemma ok_load:
  assumes "loadCensusIfNotYet X cb i = (r, cb1)" and "registry_ok cb"
  shows "registry_ok cb1"
proof (cases "censuses cb i")
  case (Some h)
  then show ?thesis using assms by (simp add: load_cached)
next
  case None
  show ?thesis
    using assms(1) None ok_new_entry[OF None assms(2)] assms(2)
    by (auto simp add: loadCensusIfNotYet_def emit_def Let_def ok_trace
        split: option.splits sum.splits)
qed

lemma keeps_emit_iff [simp]:
  "keeps j a (emit (Debugf f args) b) = keeps j a b"
  "keeps j a (emit (Errorf f args) b) = keeps j a b"
  by (simp_all add: keeps_def emit_def loads_of_def)

lemma keeps_db_iff [simp]: "keeps j a (b\<lparr>db := d\<rparr>) = keeps j a b"
  by (simp add: keeps_def loads_of_def)

lemma keeps_obj_iff:
  "censuses b i = Some h \<Longrightarrow>
   keeps j a (b\<lparr>censuses := (censuses b)(i \<mapsto> h\<lparr>obj := c\<rparr>)\<rparr>) = keeps j a b"
  by (auto simp add: keeps_def loads_of_def)

lemma keeps_NewCensus: "keeps j cb (snd (NewCensus X cb))"
  by (auto simp add: NewCensus_def split: sum.splits option.splits prod.splits
      intro: keeps_load)

lemma keeps_CloseCensus: "keeps j cb (snd (CloseCensus X cb i))"
  by (auto simp add: CloseCensus_def keeps_obj_iff split: sum.splits option.splits prod.splits
      intro: keeps_load)

lemma keeps_CensusRoot: "keeps j cb (snd (CensusRoot X cb i))"
  by (auto simp add: CensusRoot_def keeps_obj_iff split: sum.splits option.splits prod.splits
      intro: keeps_load)

lemma keeps_AddPublicKeys: "keeps j cb (snd (AddPublicKeys X cb i ks))"
  by (auto simp add: AddPublicKeys_def keeps_obj_iff Let_def
      split: sum.splits option.splits prod.splits list.splits
      intro: keeps_load)

lemma keeps_SetStatus: "keeps j cb (snd (SetStatus X cb i st))"
  by (auto simp add: SetStatus_def keeps_obj_iff Let_def
      split: sum.splits option.splits prod.splits
      intro: keeps_load)

lemma keeps_AddPublicKeysAndStoreError:
  "keeps j cb (snd (AddPublicKeysAndStoreError X cb i ks))"
proof -
  obtain r cb1 where a: "AddPublicKeys X cb i ks = (r, cb1)" by (cases "AddPublicKeys X cb i ks")
  have k1: "keeps j cb cb1" using keeps_AddPublicKeys[of j cb X i ks] a by simp
  show ?thesis
  proof (cases r)
    case None
    then show ?thesis using a k1 by (simp add: AddPublicKeysAndStoreError_def)
  next
    case (Some err)
    let ?cb2 = "emit (Debugf ''[CensusID=%d] error: %s'' [Error_msg err]) cb1"
    obtain r2 cb3 where b: "SetStatus X ?cb2 i (Error_msg err) = (r2, cb3)"
      by (cases "SetStatus X ?cb2 i (Error_msg err)")
    have "keeps j ?cb2 cb3" using keeps_SetStatus[of j ?cb2 X i "Error_msg err"] b by simp
    moreover have "keeps j cb ?cb2" using k1 by simp
    ultimately have "keeps j cb cb3" by (rule keeps_trans[rotated])
    then show ?thesis using a b Some k1
      by (auto simp add: AddPublicKeysAndStoreError_def Let_def split: option.splits)
  qed
qed

lemma keeps_run_op: "keeps j cb (run_op X cb op)"
  by (cases op)
    (simp_all add: keeps_NewCensus keeps_CloseCensus keeps_CensusRoot keeps_AddPublicKeys
      keeps_SetStatus keeps_AddPublicKeysAndStoreError CensusInfo_def)

lemma keeps_run_ops: "keeps j cb (run_ops X cb ops)"
proof (induction ops arbitrary: cb)
  case Nil
  then show ?case by (simp add: run_ops_def)
next
  case (Cons op ops)
  have "keeps j cb (run_op X cb op)" by (rule keeps_run_op)
  moreover have "keeps j (run_op X cb op) (run_ops X (run_op X cb op) ops)" by (rule Cons.IH)
  ultimately show ?case by (simp add: run_ops_def keeps_trans)
qed

lemma ok_emit_iff [simp]: "registry_ok (emit e cb) = registry_ok cb"
  by (simp add: registry_ok_def emit_def)

lemma ok_db_iff [simp]: "registry_ok (cb\<lparr>db := d\<rparr>) = registry_ok cb"
  by (simp add: registry_ok_def)

lemma ok_NewCensus: "registry_ok cb \<Longrightarrow> registry_ok (snd (NewCensus X cb))"
  by (auto simp add: NewCensus_def split: sum.splits option.splits prod.splits
      intro: ok_load)

lemma ok_CloseCensus: "registry_ok cb \<Longrightarrow> registry_ok (snd (CloseCensus X cb i))"
  by (auto simp add: CloseCensus_def split: sum.splits option.splits prod.splits
      intro: ok_load ok_obj)

lemma ok_CensusRoot: "registry_ok cb \<Longrightarrow> registry_ok (snd (CensusRoot X cb i))"
  by (auto simp add: CensusRoot_def split: sum.splits option.splits prod.splits
      intro: ok_load ok_obj)

lemma ok_AddPublicKeys: "registry_ok cb \<Longrightarrow> registry_ok (snd (AddPublicKeys X cb i ks))"
  by (auto simp add: AddPublicKeys_def Let_def
      split: sum.splits option.splits prod.splits list.splits
      intro: ok_load ok_obj)

lemma ok_SetStatus: "registry_ok cb \<Longrightarrow> registry_ok (snd (SetStatus X cb i st))"
  by (auto simp add: SetStatus_def Let_def
      split: sum.splits option.splits prod.splits
      intro: ok_load ok_obj)

lemma ok_AddPublicKeysAndStoreError:
  assumes "registry_ok cb"
  shows "registry_ok (snd (AddPublicKeysAndStoreError X cb i ks))"
proof -
  obtain r cb1 where a: "AddPublicKeys X cb i ks = (r, cb1)" by (cases "AddPublicKeys X cb i ks")
  have k1: "registry_ok cb1" using ok_AddPublicKeys[OF assms, of X i ks] a by simp
  show ?thesis
  proof (cases r)
    case None
    then show ?thesis using a k1 by (simp add: AddPublicKeysAndStoreError_def)
  next
    case (Some err)
    let ?cb2 = "emit (Debugf ''[CensusID=%d] error: %s'' [Error_msg err]) cb1"
    obtain r2 cb3 where b: "SetStatus X ?cb2 i (Error_msg err) = (r2, cb3)"
      by (cases "SetStatus X ?cb2 i (Error_msg err)")
    have "registry_ok ?cb2" using k1 by simp
    then have "registry_ok cb3" using ok_SetStatus[of ?cb2 X i "Error_msg err"] b by simp
    then show ?thesis using a b Some k1
      by (auto simp add: AddPublicKeysAndStoreError_def Let_def split: option.splits)
  qed
qed

lemma ok_run_op: "registry_ok cb \<Longrightarrow> registry_ok (run_op X cb op)"
  by (cases op)
    (simp_all add: ok_NewCensus ok_CloseCensus ok_CensusRoot ok_AddPublicKeys
      ok_SetStatus ok_AddPublicKeysAndStoreError CensusInfo_def)

lemma ok_run_ops: "registry_ok cb \<Longrightarrow> registry_ok (run_ops X cb ops)"
proof (induction ops arbitrary: cb)
  case Nil
  then show ?case by (simp add: run_ops_def)
next
  case (Cons op ops)
  have "registry_ok (run_op X cb op)" using Cons.prems by (rule ok_run_op)
  then have "registry_ok (run_ops X (run_op X cb op) ops)" by (rule Cons.IH)
  then show ?case by (simp add: run_ops_def)
qed

lemma New_result:
  assumes "New X database path = Inr cb"
  shows "subDBsPath cb = path" and "censuses cb = Map.empty" and "next_addr cb = 0" and "trace cb = []"
  using assms
  by (auto simp add: New_def Let_def split: sum.splits if_splits)

lemma ok_New: "New X database path = Inr cb \<Longrightarrow> registry_ok cb"
  by (simp add: registry_ok_def New_result)

text \<open>
  C2. In one process, whatever sequence of NewCensus, CloseCensus, CensusRoot, CensusInfo,
  AddPublicKeys, AddPublicKeysAndStoreError and SetStatus runs: an identifier that has a
  handle in \<open>censuses\<close> keeps that very handle (same address; the entry is never removed
  or replaced by another handle), a later load of it returns at once, and no further call
  opens a store or constructs a census for it. In a process started by \<open>New\<close> the handles
  ever created are exactly the entries of the map: one per cached identifier, none shared
  by two identifiers.
\<close>

theorem registry_keeps_handles:
  "(censuses cb i = Some h \<longrightarrow>
      (\<exists>h'. censuses (run_ops X cb ops) i = Some h' \<and> addr h' = addr h) \<and>
      loadCensusIfNotYet X (run_ops X cb ops) i = (None, run_ops X cb ops) \<and>
      loads_of i (run_ops X cb ops) = loads_of i cb) \<and>
   (New X database path = Inr cb \<longrightarrow>
      finite (dom (censuses (run_ops X cb ops))) \<and>
      card (dom (censuses (run_ops X cb ops))) = next_addr (run_ops X cb ops) \<and>
      (\<forall>j k h1 h2. censuses (run_ops X cb ops) j = Some h1 \<and>
                    censuses (run_ops X cb ops) k = Some h2 \<and> addr h1 = addr h2 \<longrightarrow> j = k))"
proof (intro conjI impI)
  assume c: "censuses cb i = Some h"
  have k: "keeps i cb (run_ops X cb ops)" by (rule keeps_run_ops)
  then show "\<exists>h'. censuses (run_ops X cb ops) i = Some h' \<and> addr h' = addr h"
    using c unfolding keeps_def by blast
  then show "loadCensusIfNotYet X (run_ops X cb ops) i = (None, run_ops X cb ops)"
    using load_cached by blast
  show "loads_of i (run_ops X cb ops) = loads_of i cb"
    using k c unfolding keeps_def by blast
next
  assume n: "New X database path = Inr cb"
  have ok: "registry_ok (run_ops X cb ops)"
    using ok_run_ops[OF ok_New[OF n]] .
  show "finite (dom (censuses (run_ops X cb ops)))"
    using ok unfolding registry_ok_def by blast
  show "card (dom (censuses (run_ops X cb ops))) = next_addr (run_ops X cb ops)"
    using ok unfolding registry_ok_def by blast
  show "\<forall>j k h1 h2. censuses (run_ops X cb ops) j = Some h1 \<and>
                    censuses (run_ops X cb ops) k = Some h2 \<and> addr h1 = addr h2 \<longrightarrow> j = k"
    using ok unfolding registry_ok_def by blast
qed

theorem registry_keeps_handles_witness:
  "censuses sample_builder 0 = Some \<lparr>addr = 0, obj = \<lparr>members = [], is_closed = False\<rparr>\<rparr> \<and>
   (\<exists>h'. censuses (run_ops sample_env sample_builder
             [OpNewCensus, OpAddPublicKeys 0 [1, 2], OpCloseCensus 0, OpSetStatus 0 ''done'',
              OpCensusRoot 7]) 0 = Some h' \<and> addr h' = 0) \<and>
   loads_of 0 (run_ops sample_env sample_builder
             [OpNewCensus, OpAddPublicKeys 0 [1, 2], OpCloseCensus 0, OpSetStatus 0 ''done'',
              OpCensusRoot 7]) = loads_of 0 sample_builder \<and>
   New sample_env Map.empty ''data'' =
     Inr \<lparr>subDBsPath = ''data'', db = [dbKeyNextCensusID \<mapsto> PutUint64 0],
          censuses = Map.empty, next_addr = 0, trace = []\<rparr> \<and>
   card (dom (censuses (run_ops sample_env
       \<lparr>subDBsPath = ''data'', db = [dbKeyNextCensusID \<mapsto> PutUint64 0],
        censuses = Map.empty, next_addr = 0, trace = []\<rparr> [OpNewCensus, OpSetStatus 3 ''x''])))
     = next_addr (run_ops sample_env
       \<lparr>subDBsPath = ''data'', db = [dbKeyNextCensusID \<mapsto> PutUint64 0],
        censuses = Map.empty, next_addr = 0, trace = []\<rparr> [OpNewCensus, OpSetStatus 3 ''x''])"
proof -
  have c: "censuses sample_builder 0 = Some \<lparr>addr = 0, obj = \<lparr>members = [], is_closed = False\<rparr>\<rparr>"
    by (simp add: sample_builder_def)
  have n: "New sample_env Map.empty ''data'' =
     Inr \<lparr>subDBsPath = ''data'', db = [dbKeyNextCensusID \<mapsto> PutUint64 0],
          censuses = Map.empty, next_addr = 0, trace = []\<rparr>"
    by (simp add: New_def getNextCensusID_def tx_Get_def tx_view_def db_WriteTx_def
        setNextCensusID_def tx_Set_def tx_Commit_def ErrKeyNotFound_def sample_env_def)
  show ?thesis
    using c n
      registry_keeps_handles [of sample_builder 0
        "\<lparr>addr = 0, obj = \<lparr>members = [], is_closed = False\<rparr>\<rparr>" sample_env
        "[OpNewCensus, OpAddPublicKeys 0 [1, 2], OpCloseCensus 0, OpSetStatus 0 ''done'',
          OpCensusRoot 7]"]
      registry_keeps_handles [of
        "\<lparr>subDBsPath = ''data'', db = [dbKeyNextCensusID \<mapsto> PutUint64 0],
          censuses = Map.empty, next_addr = 0, trace = []\<rparr>" 0
        "\<lparr>addr = 0, obj = \<lparr>members = [], is_closed = False\<rparr>\<rparr>" sample_env
        "[OpNewCensus, OpSetStatus 3 ''x'']" Map.empty "''data''"]
    by simp
qed

section \<open>Allocating identifiers\<close>


lemma get_after_set:
  assumes "db_Get_fault X dbKeyNextCensusID = None"
  shows "getNextCensusID X (m(dbKeyNextCensusID \<mapsto> PutUint64 n)) = Inr n"
  using assms by (simp add: getNextCensusID_def tx_Get_def Uint64_PutUint64)



lemma New_existing:
  assumes "getNextCensusID X database = Inr n"
  shows "New X database path =
           (case db_Commit_fault X Map.empty of
              Some e \<Rightarrow> Inl (Err e)
            | None \<Rightarrow> Inr \<lparr>subDBsPath = path, db = database, censuses = Map.empty,
                          next_addr = 0, trace = []\<rparr>)"
  using assms
  by (simp add: New_def tx_view_def db_WriteTx_def tx_Commit_def Let_def split: option.splits)





text \<open>
  With a counter key that can be read, \<open>New\<close> is idempotent: after a first successful
  \<open>New\<close> the counter holds a value, \<open>New\<close> writes nothing into a store that already
  has a counter value, and a second \<open>New\<close> commits an empty transaction.
\<close>

lemma New_twice:
  assumes "New X database path = Inr cb1" and "db_Get_fault X dbKeyNextCensusID = None"
  shows "(\<exists>n. getNextCensusID X (db cb1) = Inr n) \<and>
         (database dbKeyNextCensusID \<noteq> None \<longrightarrow> db cb1 = database) \<and>
         (\<forall>cb2. New X (db cb1) path' = Inr cb2 \<longrightarrow>
                db cb2 = db cb1 \<and> getNextCensusID X (db cb2) = getNextCensusID X (db cb1)) \<and>
         (db_Commit_fault X Map.empty = None \<longrightarrow> (\<exists>cb2. New X (db cb1) path' = Inr cb2))"
proof -
  have first: "(\<exists>n. getNextCensusID X (db cb1) = Inr n) \<and>
               (database dbKeyNextCensusID \<noteq> None \<longrightarrow> db cb1 = database)"
  proof (cases "getNextCensusID X database")
    case (Inr n)
    then show ?thesis using assms(1) New_existing[OF Inr, of path]
      by (auto split: option.splits)
  next
    case (Inl err)
    have absent: "database dbKeyNextCensusID = None"
    proof (rule ccontr)
      assume "database dbKeyNextCensusID \<noteq> None"
      then obtain b where b: "database dbKeyNextCensusID = Some b" by blast
      then have "getNextCensusID X database = Uint64 b"
        using assms(2) by (simp add: getNextCensusID_def tx_Get_def)
      then have "is_panic err" using Inl by (auto simp add: Uint64_def split: if_splits)
      then show False using assms(1) Inl
        by (simp add: New_def tx_view_def db_WriteTx_def Let_def)
    qed
    have "db cb1 = database(dbKeyNextCensusID \<mapsto> PutUint64 0)"
      using assms(1) Inl absent
      by (auto simp add: New_def tx_view_def db_WriteTx_def setNextCensusID_def tx_Set_def
          tx_Commit_def Let_def split: sum.splits option.splits if_splits)
    then show ?thesis using absent get_after_set[OF assms(2)] by simp
  qed
  then obtain n where n: "getNextCensusID X (db cb1) = Inr n" by blast
  show ?thesis
    using first New_existing[OF n, of path']
    by (auto split: option.splits)
qed

lemma New_twice_example:
  "New sample_env [dbKeyNextCensusID \<mapsto> PutUint64 5] ''data'' =
     Inr \<lparr>subDBsPath = ''data'', db = [dbKeyNextCensusID \<mapsto> PutUint64 5],
          censuses = Map.empty, next_addr = 0, trace = []\<rparr> \<and>
   db_Get_fault sample_env dbKeyNextCensusID = None \<and>
   db_Commit_fault sample_env Map.empty = None \<and>
   (\<exists>cb2. New sample_env [dbKeyNextCensusID \<mapsto> PutUint64 5] ''elsewhere'' = Inr cb2 \<and>
          db cb2 = [dbKeyNextCensusID \<mapsto> PutUint64 5])"
proof -
  have g: "getNextCensusID sample_env [dbKeyNextCensusID \<mapsto> PutUint64 5] = Inr 5"
    by (simp add: getNextCensusID_def tx_Get_def sample_env_def Uint64_PutUint64)
  have f: "db_Get_fault sample_env dbKeyNextCensusID = None"
    "db_Commit_fault sample_env Map.empty = None"
    by (simp_all add: sample_env_def)
  have n: "New sample_env [dbKeyNextCensusID \<mapsto> PutUint64 5] ''data'' =
     Inr \<lparr>subDBsPath = ''data'', db = [dbKeyNextCensusID \<mapsto> PutUint64 5],
          censuses = Map.empty, next_addr = 0, trace = []\<rparr>"
    using New_existing[OF g, of "''data''"] f by simp
  show ?thesis
    using n f New_twice [OF n f(1), of "''elsewhere''"]
    by auto
qed

text \<open>
  C7 does not hold of the code. \<open>New\<close> takes every error of the read for a counter that
  is not set, not only the missing key: on a store that holds the counter 5 and whose
  read of the counter key fails with an input/output error while its writes go through,
  \<open>New\<close> succeeds and leaves the counter 0 in the store. Identifiers already issued are
  then no longer below the counter.
\<close>

theorem New_resets_counter_on_read_error:
  "getNextCensusID sample_env [dbKeyNextCensusID \<mapsto> PutUint64 5] = Inr 5 \<and>
   New (sample_env\<lparr>db_Get_fault := (\<lambda>k. Some ''input/output error'')\<rparr>)
       [dbKeyNextCensusID \<mapsto> PutUint64 5] ''data'' =
     Inr \<lparr>subDBsPath = ''data'', db = [dbKeyNextCensusID \<mapsto> PutUint64 0],
          censuses = Map.empty, next_addr = 0, trace = []\<rparr> \<and>
   getNextCensusID sample_env [dbKeyNextCensusID \<mapsto> PutUint64 0] = Inr 0"
  by (simp add: New_def getNextCensusID_def tx_Get_def tx_view_def db_WriteTx_def
      setNextCensusID_def tx_Set_def tx_Commit_def sample_env_def Uint64_PutUint64)

section \<open>Adding public keys\<close>

lemma tx_Commit_no_panic: "tx_Commit X w = Inl e \<Longrightarrow> \<not> is_panic e"
  by (auto simp add: tx_Commit_def split: option.splits)

lemma AddPublicKeys_no_panic:
  assumes "AddPublicKeys X cb i ks = (Some e, cb1)"
  shows "\<not> is_panic e"
proof -
  obtain r cb0 where l: "loadCensusIfNotYet X cb i = (r, cb0)"
    by (cases "loadCensusIfNotYet X cb i")
  show ?thesis
  proof (cases r)
    case (Some e')
    then show ?thesis using assms l load_error(1)[of X cb i e' cb0]
      by (simp add: AddPublicKeys_def)
  next
    case None
    then obtain h where h: "censuses cb0 i = Some h" using l load_ok_cached by blast
    show ?thesis using assms l None h
      by (auto simp add: AddPublicKeys_def Let_def split: prod.splits option.splits list.splits)
  qed
qed

lemma SetStatus_no_panic:
  assumes "SetStatus X cb i st = (Some e, cb1)"
  shows "\<not> is_panic e"
proof -
  obtain r cb0 where l: "loadCensusIfNotYet X cb i = (r, cb0)"
    by (cases "loadCensusIfNotYet X cb i")
  show ?thesis
  proof (cases r)
    case (Some e')
    then show ?thesis using assms l load_error(1)[of X cb i e' cb0]
      by (simp add: SetStatus_def)
  next
    case None
    then obtain h where h: "censuses cb0 i = Some h" using l load_ok_cached by blast
    show ?thesis using assms l None h
      by (auto simp add: SetStatus_def Let_def split: prod.splits sum.splits dest: tx_Commit_no_panic)
  qed
qed

text \<open>
  C5, as amended. Once the census is loaded, what \<open>AddPublicKeys\<close> returns is decided by
  the two results of the identity set, the error first: an error of the identity set is
  returned as it is, whatever the list of rejects; with no error and a non-empty list of
  rejects the call fails with a message made of the number of rejects and the index and
  the reason of the first reject; with no error and no reject the call succeeds.
\<close>

theorem AddPublicKeys_reports:
  assumes "loadCensusIfNotYet X cb i = (None, cb1)" and "censuses cb1 i = Some h"
    and "census_AddPublicKeys X (obj h) ks = ((invalids, r), c')"
  shows "(\<forall>e. r = Some e \<longrightarrow> fst (AddPublicKeys X cb i ks) = Some (Err e)) \<and>
         (r = None \<and> invalids \<noteq> [] \<longrightarrow>
            fst (AddPublicKeys X cb i ks) =
              Some (Err (''CensusBuilder.AddPublicKeys error: '' @ Itoa (int (length invalids))
                         @ '' invalid keys, invalid msg for key ''
                         @ Itoa (Invalid.Index (hd invalids)) @ '': ''
                         @ Invalid.Error (hd invalids)))) \<and>
         (r = None \<and> invalids = [] \<longrightarrow> fst (AddPublicKeys X cb i ks) = None)"
  using assms
  by (cases invalids) (auto simp add: AddPublicKeys_def Let_def)

theorem AddPublicKeys_reports_witness:
  "loadCensusIfNotYet sample_env sample_builder 0 = (None, sample_builder) \<and>
   census_AddPublicKeys sample_env \<lparr>members = [], is_closed = False\<rparr> [1, 2, 0, 4, 5] =
     (([\<lparr>Invalid.Index = 2, Invalid.Error = ''invalid key''\<rparr>], None),
      \<lparr>members = [1, 2, 4, 5], is_closed = False\<rparr>) \<and>
   fst (AddPublicKeys sample_env sample_builder 0 [1, 2, 0, 4, 5]) =
     Some (Err ''CensusBuilder.AddPublicKeys error: 1 invalid keys, invalid msg for key 2: invalid key'') \<and>
   fst (AddPublicKeys sample_env sample_builder 0 [1, 2, 3]) = None \<and>
   fst (AddPublicKeys (sample_env\<lparr>census_AddPublicKeys := (\<lambda>c ks. (([], Some ''tree is closed''), c))\<rparr>)
          sample_builder 0 [1, 2, 3]) = Some (Err ''tree is closed'')"
proof -
  let ?X = "sample_env\<lparr>census_AddPublicKeys := (\<lambda>c ks. (([], Some ''tree is closed''), c))\<rparr>"
  have c: "censuses sample_builder 0 = Some \<lparr>addr = 0, obj = \<lparr>members = [], is_closed = False\<rparr>\<rparr>"
    by (simp add: sample_builder_def)
  have l: "loadCensusIfNotYet sample_env sample_builder 0 = (None, sample_builder)"
    using c by (rule load_cached)
  have l': "loadCensusIfNotYet ?X sample_builder 0 = (None, sample_builder)"
    using c by (rule load_cached)
  have a: "census_AddPublicKeys sample_env (obj \<lparr>addr = 0, obj = \<lparr>members = [], is_closed = False\<rparr>\<rparr>)
             [1, 2, 0, 4, 5] =
     (([\<lparr>Invalid.Index = 2, Invalid.Error = ''invalid key''\<rparr>], None),
      \<lparr>members = [1, 2, 4, 5], is_closed = False\<rparr>)"
    by (simp add: sample_env_def)
  have b: "census_AddPublicKeys sample_env (obj \<lparr>addr = 0, obj = \<lparr>members = [], is_closed = False\<rparr>\<rparr>)
             [1, 2, 3] = (([], None), \<lparr>members = [1, 2, 3], is_closed = False\<rparr>)"
    by (simp add: sample_env_def)
  have d: "census_AddPublicKeys ?X (obj \<lparr>addr = 0, obj = \<lparr>members = [], is_closed = False\<rparr>\<rparr>)
             [1, 2, 3] = (([], Some ''tree is closed''), \<lparr>members = [], is_closed = False\<rparr>)"
    by simp
  show ?thesis
    using l a AddPublicKeys_reports [OF l c a] AddPublicKeys_reports [OF l c b]
      AddPublicKeys_reports [OF l' c d]
    by (simp add: Itoa_def FormatUint_small digit_chars)
qed

text \<open>
  C5 as stated fails when the identity set reports rejects together with an error of its
  own: the error is returned, and it carries neither the count nor the first reject.
\<close>

theorem AddPublicKeys_error_before_rejects:
  "fst (AddPublicKeys
          (sample_env\<lparr>census_AddPublicKeys :=
             (\<lambda>c ks. (([\<lparr>Invalid.Index = 2, Invalid.Error = ''invalid key''\<rparr>], Some ''batch aborted''), c))\<rparr>)
          sample_builder 0 [1, 2, 0, 4, 5])
     = Some (Err ''batch aborted'')"
  by (simp add: AddPublicKeys_def loadCensusIfNotYet_def sample_builder_def sample_env_def)

text \<open>
  C6. \<open>AddPublicKeysAndStoreError\<close> always returns normally: no error and no panic
  reaches its caller. When \<open>AddPublicKeys\<close> succeeds nothing more happens. When it fails
  with \<open>err\<close>, the failure is logged and \<open>SetStatus\<close> is called on the same identifier with
  the message of \<open>err\<close>; if \<open>SetStatus\<close> fails too, that second error is logged and
  nothing else. Where the census is loaded, the identity set stages the status it is
  given in the transaction and the store commits, the stored status is the message of
  \<open>err\<close> afterwards.
\<close>

theorem AddPublicKeysAndStoreError_captures:
  "fst (AddPublicKeysAndStoreError X cb i ks) = None \<and>
   (\<forall>cb1. AddPublicKeys X cb i ks = (None, cb1) \<longrightarrow>
      snd (AddPublicKeysAndStoreError X cb i ks) = cb1) \<and>
   (\<forall>err cb1 r2 cb3.
      AddPublicKeys X cb i ks = (Some err, cb1) \<and>
      SetStatus X (emit (Debugf ''[CensusID=%d] error: %s'' [Error_msg err]) cb1) i (Error_msg err)
        = (r2, cb3) \<longrightarrow>
      snd (AddPublicKeysAndStoreError X cb i ks) =
        (case r2 of
           None \<Rightarrow> cb3
         | Some err2 \<Rightarrow>
             emit (Errorf ''Error while trying to store CensusID:%d status: %s. Error: %s''
                     [FormatUint (unat i), Error_msg err, Error_msg err2]) cb3)) \<and>
   (\<forall>err cb1 k enc.
      AddPublicKeys X cb i ks = (Some err, cb1) \<and> censuses cb1 i \<noteq> None \<and>
      (\<forall>c w st. fst (census_SetStatus X c w st) = Inr (w\<lparr>pending := (pending w)(k \<mapsto> enc st)\<rparr>)) \<and>
      (\<forall>w. db_Commit_fault X w = None) \<longrightarrow>
      db (snd (AddPublicKeysAndStoreError X cb i ks)) k = Some (enc (Error_msg err)))"
proof -
  obtain r cb1 where a: "AddPublicKeys X cb i ks = (r, cb1)" by (cases "AddPublicKeys X cb i ks")
  show ?thesis
  proof (cases r)
    case None
    then show ?thesis using a by (simp add: AddPublicKeysAndStoreError_def)
  next
    case (Some err)
    have np: "\<not> is_panic err" using a Some AddPublicKeys_no_panic by blast
    let ?cb2 = "emit (Debugf ''[CensusID=%d] error: %s'' [Error_msg err]) cb1"
    obtain r2 cb3 where b: "SetStatus X ?cb2 i (Error_msg err) = (r2, cb3)"
      by (cases "SetStatus X ?cb2 i (Error_msg err)")
    have np2: "\<And>e2. r2 = Some e2 \<Longrightarrow> \<not> is_panic e2" using b SetStatus_no_panic by blast
    have res: "AddPublicKeysAndStoreError X cb i ks =
       (None, case r2 of None \<Rightarrow> cb3
         | Some err2 \<Rightarrow>
             emit (Errorf ''Error while trying to store CensusID:%d status: %s. Error: %s''
                     [FormatUint (unat i), Error_msg err, Error_msg err2]) cb3)"
      using a Some np b np2 by (auto simp add: AddPublicKeysAndStoreError_def Let_def split: option.splits)
    have stored: "db (snd (AddPublicKeysAndStoreError X cb i ks)) k = Some (enc (Error_msg err))"
      if c: "censuses cb1 i \<noteq> None"
        and s: "\<forall>c w st. fst (census_SetStatus X c w st) = Inr (w\<lparr>pending := (pending w)(k \<mapsto> enc st)\<rparr>)"
        and f: "\<forall>w. db_Commit_fault X w = None" for k enc
    proof -
      obtain h where h: "censuses ?cb2 i = Some h" using c by (auto simp add: emit_def)
      have l: "loadCensusIfNotYet X ?cb2 i = (None, ?cb2)" using h by (rule load_cached)
      obtain q c' where q: "census_SetStatus X (obj h) (db_WriteTx (db ?cb2)) (Error_msg err) = (q, c')"
        by (cases "census_SetStatus X (obj h) (db_WriteTx (db ?cb2)) (Error_msg err)")
      have q': "q = Inr ((db_WriteTx (db ?cb2))\<lparr>pending := (pending (db_WriteTx (db ?cb2)))(k \<mapsto> enc (Error_msg err))\<rparr>)"
        using s q by (metis fst_conv)
      have "SetStatus X ?cb2 i (Error_msg err) =
          (None, ?cb2\<lparr>censuses := (censuses ?cb2)(i \<mapsto> h\<lparr>obj := c'\<rparr>),
                       db := (db ?cb2)(k \<mapsto> enc (Error_msg err))\<rparr>)"
        using l h q q' f by (simp add: SetStatus_def Let_def tx_Commit_def db_WriteTx_def)
      then show ?thesis using b res by auto
    qed
    show ?thesis using a Some b res stored by auto
  qed
qed

theorem AddPublicKeysAndStoreError_captures_witness:
  "fst (AddPublicKeys sample_env sample_builder 0 [1, 2, 0, 4, 5]) =
     Some (Err ''CensusBuilder.AddPublicKeys error: 1 invalid keys, invalid msg for key 2: invalid key'') \<and>
   censuses (snd (AddPublicKeys sample_env sample_builder 0 [1, 2, 0, 4, 5])) 0 \<noteq> None \<and>
   fst (AddPublicKeysAndStoreError sample_env sample_builder 0 [1, 2, 0, 4, 5]) = None \<and>
   db (snd (AddPublicKeysAndStoreError sample_env sample_builder 0 [1, 2, 0, 4, 5])) (bytes_of ''status'') =
     Some (bytes_of ''CensusBuilder.AddPublicKeys error: 1 invalid keys, invalid msg for key 2: invalid key'') \<and>
   fst (AddPublicKeys sample_env sample_builder 0 [1, 2, 3]) = None \<and>
   snd (AddPublicKeysAndStoreError sample_env sample_builder 0 [1, 2, 3]) =
     snd (AddPublicKeys sample_env sample_builder 0 [1, 2, 3]) \<and>
   fst (AddPublicKeysAndStoreError
          (sample_env\<lparr>census_SetStatus := (\<lambda>c w st. (Inl ''disk full'', c))\<rparr>)
          sample_builder 0 [1, 2, 0, 4, 5]) = None \<and>
   last (trace (snd (AddPublicKeysAndStoreError
          (sample_env\<lparr>census_SetStatus := (\<lambda>c w st. (Inl ''disk full'', c))\<rparr>)
          sample_builder 0 [1, 2, 0, 4, 5]))) =
     Errorf ''Error while trying to store CensusID:%d status: %s. Error: %s''
       [''0'', ''CensusBuilder.AddPublicKeys error: 1 invalid keys, invalid msg for key 2: invalid key'',
        ''disk full'']"
proof -
  let ?m = "''CensusBuilder.AddPublicKeys error: 1 invalid keys, invalid msg for key 2: invalid key''"
  let ?e = "Err ?m"
  let ?ks = "[1, 2, 0, 4, 5] :: nat list"
  let ?a = "AddPublicKeys sample_env sample_builder 0 ?ks"
  let ?Y = "sample_env\<lparr>census_SetStatus := (\<lambda>c w st. (Inl ''disk full'', c))\<rparr>"
  have a: "fst ?a = Some ?e"
    by (simp add: AddPublicKeys_def loadCensusIfNotYet_def sample_builder_def sample_env_def
        Itoa_def FormatUint_small digit_chars)
  have c: "censuses (snd ?a) 0 \<noteq> None"
    by (simp add: AddPublicKeys_def loadCensusIfNotYet_def sample_builder_def sample_env_def)
  have p: "?a = (Some ?e, snd ?a)" using a by (simp add: prod_eq_iff)
  have s: "\<forall>c w st. fst (census_SetStatus sample_env c w st) =
             Inr (w\<lparr>pending := (pending w)(bytes_of ''status'' \<mapsto> bytes_of st)\<rparr>)"
    by (simp add: sample_env_def)
  have f: "\<forall>w. db_Commit_fault sample_env w = None" by (simp add: sample_env_def)
  have stored: "db (snd (AddPublicKeysAndStoreError sample_env sample_builder 0 ?ks))
          (bytes_of ''status'') = Some (bytes_of (Error_msg ?e))"
    using AddPublicKeysAndStoreError_captures [of sample_env sample_builder 0 ?ks]
      p c s f by blast
  have ok: "fst (AddPublicKeys sample_env sample_builder 0 [1, 2, 3]) = None"
    by (simp add: AddPublicKeys_def loadCensusIfNotYet_def sample_builder_def sample_env_def)
  then have q: "AddPublicKeys sample_env sample_builder 0 [1, 2, 3] =
      (None, snd (AddPublicKeys sample_env sample_builder 0 [1, 2, 3]))"
    by (simp add: prod_eq_iff)
  have same: "snd (AddPublicKeysAndStoreError sample_env sample_builder 0 [1, 2, 3]) =
     snd (AddPublicKeys sample_env sample_builder 0 [1, 2, 3])"
    using conjunct1 [OF conjunct2 [OF AddPublicKeysAndStoreError_captures
          [of sample_env sample_builder 0 "[1, 2, 3]"]], rule_format,
        of "snd (AddPublicKeys sample_env sample_builder 0 [1, 2, 3])"] q
    by simp
  let ?cb1 = "sample_builder\<lparr>censuses := (censuses sample_builder)
                 (0 \<mapsto> \<lparr>addr = 0, obj = \<lparr>members = [1, 2, 4, 5], is_closed = False\<rparr>\<rparr>)\<rparr>"
  have a2: "AddPublicKeys ?Y sample_builder 0 ?ks = (Some ?e, ?cb1)"
    by (simp add: AddPublicKeys_def loadCensusIfNotYet_def sample_builder_def sample_env_def
        Itoa_def FormatUint_small digit_chars)
  let ?cb2 = "emit (Debugf ''[CensusID=%d] error: %s'' [Error_msg ?e]) ?cb1"
  have s2: "SetStatus ?Y ?cb2 0 (Error_msg ?e) = (Some (Err ''disk full''), ?cb2)"
    by (simp add: SetStatus_def loadCensusIfNotYet_def sample_builder_def sample_env_def emit_def)
  have logged: "snd (AddPublicKeysAndStoreError ?Y sample_builder 0 ?ks) =
      emit (Errorf ''Error while trying to store CensusID:%d status: %s. Error: %s''
              [FormatUint (unat (0::uint64)), Error_msg ?e, Error_msg (Err ''disk full'')]) ?cb2"
    using conjunct1 [OF conjunct2 [OF conjunct2 [OF AddPublicKeysAndStoreError_captures
          [of ?Y sample_builder 0 ?ks]]], rule_format,
        of ?e ?cb1 "Some (Err ''disk full'')" ?cb2] a2 s2
    by simp
  have lastline: "last (trace (snd (AddPublicKeysAndStoreError ?Y sample_builder 0 ?ks))) =
     Errorf ''Error while trying to store CensusID:%d status: %s. Error: %s'' [''0'', ?m, ''disk full'']"
    unfolding logged by (simp add: emit_def FormatUint_small digit_chars)
  have nopanic: "fst (AddPublicKeysAndStoreError ?Y sample_builder 0 ?ks) = None"
    by (rule conjunct1 [OF AddPublicKeysAndStoreError_captures])
  have first: "fst (AddPublicKeysAndStoreError sample_env sample_builder 0 ?ks) = None"
    by (rule conjunct1 [OF AddPublicKeysAndStoreError_captures])
  show ?thesis
    using a c first stored ok same nopanic lastline by simp
qed

section \<open>CensusInfo\<close>

text \<open>
  C10 does not hold of the code: \<open>CensusInfo\<close> is a placeholder. What it returns is a
  fixed text with the identifier in decimal; it looks neither at the registry nor at the
  census, so two builders that differ in everything give the same answer. It changes
  nothing.
\<close>

theorem CensusInfo_is_placeholder:
  "fst (CensusInfo X cb i) = Inr (''WIP, this will return info about CensusID: '' @ FormatUint (unat i)) \<and>
   fst (CensusInfo X cb i) = fst (CensusInfo X' cb' i) \<and>
   snd (CensusInfo X cb i) = cb \<and>
   fst (CensusInfo sample_env sample_builder 0) = Inr ''WIP, this will return info about CensusID: 0'' \<and>
   fst (CensusInfo sample_env (snd (SetStatus sample_env sample_builder 0 ''failed'')) 0)
     = Inr ''WIP, this will return info about CensusID: 0''"
  by (simp add: CensusInfo_def FormatUint_small digit_chars)

section \<open>The storage location of a census\<close>

subsection \<open>Signed reading of an identifier\<close>

lemma uint_bounds64: "0 \<le> uint (i::uint64)" "uint (i::uint64) < 2 ^ 64"
  using uint_lt2p[of i] by simp_all

lemma two64: "(2::int) ^ 64 = 2 * 2 ^ 63" "(0::int) < 2 ^ 63"
  by simp_all

lemma sint_small:
  assumes "uint (i::uint64) < 2 ^ 63"
  shows "sint i = uint i"
proof -
  have "- (2 ^ 63) \<le> uint i" using uint_bounds64(1)[of i] two64(2) by linarith
  then have "signed_take_bit 63 (uint i) = uint i"
    using assms by (rule signed_take_bit_int_eq_self)
  then show ?thesis by (simp add: sint_uint)
qed

lemma sint_big:
  assumes lo: "2 ^ 63 \<le> uint (i::uint64)"
  shows "sint i = uint i - 2 ^ 64"
proof -
  have hi: "uint i < 2 ^ 64" by (rule uint_bounds64)
  have "(uint i + 2 ^ 63) mod 2 ^ 64 = (uint i + 2 ^ 63 - 2 ^ 64) mod 2 ^ 64"
    by (simp only: minus_mod_self2)
  also have "\<dots> = uint i + 2 ^ 63 - 2 ^ 64"
    using lo hi two64 by (intro mod_pos_pos_trivial) linarith+
  finally have "take_bit (Suc 63) (uint i + 2 ^ 63) = uint i + 2 ^ 63 - 2 ^ 64"
    by (simp add: take_bit_eq_mod)
  then have "signed_take_bit 63 (uint i) = uint i - 2 ^ 64"
    by (simp add: signed_take_bit_eq_take_bit_shift)
  then show ?thesis by (simp add: sint_uint)
qed

subsection \<open>Decimal strings\<close>

lemma of_char_digit: "d < 10 \<Longrightarrow> of_char (digit_char d) = (48 + d :: nat)"
  by (simp add: digit_char_def)

lemma digit_char_inj:
  assumes "a < 10" and "b < 10" and "digit_char a = digit_char b"
  shows "a = b"
proof -
  have "(of_char (digit_char a) :: nat) = of_char (digit_char b)" using assms(3) by (rule arg_cong)
  then have "48 + a = 48 + b"
    by (simp only: of_char_digit[OF assms(1)] of_char_digit[OF assms(2)])
  then show ?thesis by (rule add_left_imp_eq)
qed

lemma digit_char_not_special:
  assumes "d < 10"
  shows "digit_char d \<noteq> CHR ''/''" and "digit_char d \<noteq> CHR ''.''" and "digit_char d \<noteq> CHR ''-''"
proof -
  show "digit_char d \<noteq> CHR ''/''"
  proof
    assume "digit_char d = CHR ''/''"
    then have "(of_char (digit_char d) :: nat) = of_char (CHR ''/'')" by simp
    then show False using of_char_digit[OF assms] by simp
  qed
  show "digit_char d \<noteq> CHR ''.''"
  proof
    assume "digit_char d = CHR ''.''"
    then have "(of_char (digit_char d) :: nat) = of_char (CHR ''.'')" by simp
    then show False using of_char_digit[OF assms] by simp
  qed
  show "digit_char d \<noteq> CHR ''-''"
  proof
    assume "digit_char d = CHR ''-''"
    then have "(of_char (digit_char d) :: nat) = of_char (CHR ''-'')" by simp
    then show False using of_char_digit[OF assms] by simp
  qed
qed

lemma FormatUint_nonempty: "FormatUint n \<noteq> []"
  by (subst FormatUint.simps) simp

lemma FormatUint_chars: "c \<in> set (FormatUint n) \<Longrightarrow> \<exists>d<10. c = digit_char d"
proof (induction n rule: FormatUint.induct)
  case (1 n)
  show ?case
  proof (cases "n < 10")
    case True
    then show ?thesis using "1.prems" by (subst (asm) FormatUint.simps) auto
  next
    case False
    have "c \<in> set (FormatUint (n div 10)) \<or> c = digit_char (n mod 10)"
      using "1.prems" False by (subst (asm) FormatUint.simps) auto
    then show ?thesis
    proof
      assume "c \<in> set (FormatUint (n div 10))"
      then show ?thesis using "1.IH"[OF False] by blast
    next
      assume "c = digit_char (n mod 10)"
      moreover have "n mod 10 < 10" by simp
      ultimately show ?thesis by blast
    qed
  qed
qed

lemma FormatUint_inj: "FormatUint n = FormatUint m \<Longrightarrow> n = m"
proof (induction n arbitrary: m rule: FormatUint.induct)
  case (1 n)
  show ?case
  proof (cases "n < 10")
    case True
    show ?thesis
    proof (cases "m < 10")
      case mt: True
      then show ?thesis using True "1.prems" by (simp add: FormatUint.simps[of n] FormatUint.simps[of m] digit_char_inj)
    next
      case False
      then have "FormatUint m = FormatUint (m div 10) @ [digit_char (m mod 10)]"
        by (subst FormatUint.simps) simp
      moreover have "FormatUint n = [digit_char n]" using True by (subst FormatUint.simps) simp
      ultimately show ?thesis using "1.prems" FormatUint_nonempty[of "m div 10"] by simp
    qed
  next
    case False
    have n: "FormatUint n = FormatUint (n div 10) @ [digit_char (n mod 10)]"
      using False by (subst FormatUint.simps) simp
    show ?thesis
    proof (cases "m < 10")
      case True
      then have "FormatUint m = [digit_char m]" by (subst FormatUint.simps) simp
      then show ?thesis using n "1.prems" FormatUint_nonempty[of "n div 10"] by simp
    next
      case mf: False
      then have m: "FormatUint m = FormatUint (m div 10) @ [digit_char (m mod 10)]"
        by (subst FormatUint.simps) simp
      have "FormatUint (n div 10) = FormatUint (m div 10)" and d: "digit_char (n mod 10) = digit_char (m mod 10)"
        using n m "1.prems" by simp_all
      then have "n div 10 = m div 10" using "1.IH"[OF False] by blast
      moreover have "n mod 10 = m mod 10" using d by (intro digit_char_inj) simp_all
      ultimately show ?thesis by (metis div_mult_mod_eq)
    qed
  qed
qed

lemma Itoa_inj: "Itoa a = Itoa b \<Longrightarrow> a = b"
proof -
  assume e: "Itoa a = Itoa b"
  have nd: "\<And>n. hd (FormatUint n) \<noteq> CHR ''-''"
  proof -
    fix n
    have "hd (FormatUint n) \<in> set (FormatUint n)" using FormatUint_nonempty by simp
    then show "hd (FormatUint n) \<noteq> CHR ''-''"
      using FormatUint_chars digit_char_not_special(3) by metis
  qed
  consider "a < 0" "b < 0" | "a < 0" "\<not> b < 0" | "\<not> a < 0" "b < 0" | "\<not> a < 0" "\<not> b < 0" by blast
  then show "a = b"
  proof cases
    case 1
    then have "FormatUint (nat (- a)) = FormatUint (nat (- b))" using e by (simp add: Itoa_def)
    then have "nat (- a) = nat (- b)" by (rule FormatUint_inj)
    then show ?thesis using 1 by simp
  next
    case 2
    then have "CHR ''-'' # FormatUint (nat (- a)) = FormatUint (nat b)" using e by (simp add: Itoa_def)
    then have "hd (FormatUint (nat b)) = CHR ''-''" by (metis list.sel(1))
    then show ?thesis using nd by blast
  next
    case 3
    then have "CHR ''-'' # FormatUint (nat (- b)) = FormatUint (nat a)" using e by (simp add: Itoa_def)
    then have "hd (FormatUint (nat a)) = CHR ''-''" by (metis list.sel(1))
    then show ?thesis using nd by blast
  next
    case 4
    then have "FormatUint (nat a) = FormatUint (nat b)" using e by (simp add: Itoa_def)
    then have "nat a = nat b" by (rule FormatUint_inj)
    then show ?thesis using 4 by simp
  qed
qed

lemma Itoa_chars:
  shows "Itoa a \<noteq> []" and "CHR ''/'' \<notin> set (Itoa a)" and "CHR ''.'' \<notin> set (Itoa a)"
proof -
  show "Itoa a \<noteq> []" by (simp add: Itoa_def FormatUint_nonempty)
  have "\<And>n. CHR ''/'' \<notin> set (FormatUint n)" "\<And>n. CHR ''.'' \<notin> set (FormatUint n)"
    using FormatUint_chars digit_char_not_special by metis+
  then show "CHR ''/'' \<notin> set (Itoa a)" "CHR ''.'' \<notin> set (Itoa a)"
    by (simp_all add: Itoa_def)
qed

subsection \<open>Joining a directory and a decimal string\<close>

lemma split_path_nonempty: "split_path p \<noteq> []"
  by (induction p) (auto split: list.splits)

lemma split_path_append: "split_path (a @ CHR ''/'' # b) = split_path a @ split_path b"
proof (induction a)
  case Nil
  then show ?case by simp
next
  case (Cons c cs)
  obtain x xs where x: "split_path cs = x # xs"
    using split_path_nonempty[of cs] by (cases "split_path cs") auto
  show ?case using Cons.IH x by simp
qed

lemma split_path_single: "CHR ''/'' \<notin> set d \<Longrightarrow> split_path d = [d]"
  by (induction d) auto

lemma join_elems_snoc: "join_elems (xs @ [d]) = concat (map (\<lambda>e. e @ ''/'') xs) @ d"
proof (induction xs)
  case Nil
  then show ?case by simp
next
  case (Cons x xs)
  obtain y ys where y: "xs @ [d] = y # ys" by (cases "xs @ [d]") auto
  then have "join_elems (x # xs @ [d]) = x @ CHR ''/'' # join_elems (xs @ [d])" by simp
  then show ?case using Cons.IH by simp
qed

lemma clean_elem_real:
  "d \<noteq> [] \<Longrightarrow> CHR ''.'' \<notin> set d \<Longrightarrow> clean_elem rooted out d = d # out"
  by (auto simp add: clean_elem_def)

lemma Join_last_elem:
  assumes "d \<noteq> []" and "CHR ''/'' \<notin> set d" and "CHR ''.'' \<notin> set d"
  shows "filepath_Join root d = path_prefix root @ d"
proof (cases "root = []")
  case True
  have "hd d \<noteq> CHR ''/''" using assms(1,2) by (cases d) auto
  then show ?thesis
    using True assms
    by (simp add: filepath_Join_def Clean_def path_prefix_def split_path_single clean_elem_real Let_def)
next
  case False
  have h: "hd (root @ CHR ''/'' # d) = hd root" using False by simp
  have s: "split_path (root @ CHR ''/'' # d) = split_path root @ [d]"
    using assms(2) by (simp add: split_path_append split_path_single)
  show ?thesis
    using False assms
    by (simp add: filepath_Join_def Clean_def path_prefix_def h s clean_elem_real Let_def
        join_elems_snoc)
qed

lemma censusPath_prefix: "censusPath root i = path_prefix root @ Itoa (sint i)"
  unfolding censusPath_def by (rule Join_last_elem) (rule Itoa_chars)+

lemma censusPath_inj: "censusPath root i = censusPath root j \<Longrightarrow> i = j"
proof -
  assume "censusPath root i = censusPath root j"
  then have "Itoa (sint i) = Itoa (sint j)" by (simp add: censusPath_prefix)
  then have "sint i = sint j" by (rule Itoa_inj)
  then show "i = j" by (rule signed_word_eqI)
qed

lemma censusPath_small:
  assumes "uint (i::uint64) < 2 ^ 63"
  shows "censusPath root i = filepath_Join root (FormatUint (unat i))"
  using uint_bounds64(1)[of i]
  by (simp add: censusPath_def sint_small[OF assms] Itoa_def)

lemma censusPath_big:
  assumes "2 ^ 63 \<le> uint (i::uint64)"
  shows "censusPath root i = filepath_Join root (CHR ''-'' # FormatUint (nat (2 ^ 64 - uint i)))"
proof -
  have "sint i < 0" using sint_big[OF assms] uint_bounds64(2)[of i] by linarith
  moreover have "- sint i = 2 ^ 64 - uint i" using sint_big[OF assms] by linarith
  ultimately show ?thesis by (simp add: censusPath_def Itoa_def)
qed

lemma prefix_data: "path_prefix ''data'' = ''data/''"
  by (simp add: path_prefix_def clean_elem_def)

text \<open>
  C8, as amended. The tenant store that \<open>loadCensusIfNotYet\<close> opens for an identifier
  that is not cached is at \<open>filepath.Join(subDBsPath, strconv.Itoa(int(censusID)))\<close>: the
  directory joined with the decimal string of the identifier read as a signed 64-bit
  integer. It is a function of the directory and the identifier alone, the same
  identifier gives the same location and distinct identifiers give distinct locations
  (a part fixed by the directory, then the decimal string). For identifiers below 2^63
  the string is the unsigned decimal one; from 2^63 on it is a minus sign followed by
  the decimal of 2^64 minus the identifier.
\<close>

theorem censusPath_location:
  "(censuses cb i = None \<longrightarrow>
      (\<exists>rest. trace (snd (loadCensusIfNotYet X cb i)) =
                trace cb @ OpenStorage i (censusPath (subDBsPath cb) i) # rest)) \<and>
   censusPath root i = filepath_Join root (Itoa (sint i)) \<and>
   censusPath root i = path_prefix root @ Itoa (sint i) \<and>
   (censusPath root i = censusPath root j \<longrightarrow> i = j) \<and>
   (uint i < 2 ^ 63 \<longrightarrow> censusPath root i = filepath_Join root (FormatUint (unat i))) \<and>
   (2 ^ 63 \<le> uint i \<longrightarrow>
      censusPath root i = filepath_Join root (CHR ''-'' # FormatUint (nat (2 ^ 64 - uint i))))"
proof -
  have "censuses cb i = None \<longrightarrow>
      (\<exists>rest. trace (snd (loadCensusIfNotYet X cb i)) =
                trace cb @ OpenStorage i (censusPath (subDBsPath cb) i) # rest)"
    by (auto simp add: loadCensusIfNotYet_def emit_def Let_def split: sum.splits)
  then show ?thesis
    using censusPath_prefix[of root i] censusPath_inj[of root i j] censusPath_small[of i root]
      censusPath_big[of i root]
    by (simp add: censusPath_def)
qed

theorem censusPath_location_witness:
  "censuses sample_builder 7 = None \<and>
   (\<exists>rest. trace (snd (loadCensusIfNotYet sample_env sample_builder 7)) =
             trace sample_builder @ OpenStorage 7 (censusPath ''data'' 7) # rest) \<and>
   uint (7::uint64) < 2 ^ 63 \<and>
   censusPath ''data'' 7 = filepath_Join ''data'' ''7'' \<and>
   filepath_Join ''data'' ''7'' = ''data/7'' \<and>
   2 ^ 63 \<le> uint (9223372036854775808 :: uint64) \<and>
   censusPath ''data'' 9223372036854775808 = filepath_Join ''data'' ''-9223372036854775808'' \<and>
   censusPath ''data'' 7 \<noteq> censusPath ''data'' 8"
proof -
  have n: "censuses sample_builder 7 = None" and p: "subDBsPath sample_builder = ''data''"
    by (simp_all add: sample_builder_def)
  have u1: "uint (7::uint64) < 2 ^ 63" by simp
  have u2: "2 ^ 63 \<le> uint (9223372036854775808 :: uint64)" by simp
  have f7: "FormatUint (unat (7::uint64)) = ''7''"
    by (simp add: FormatUint_small digit_chars)
  have fb: "FormatUint (nat (2 ^ 64 - uint (9223372036854775808 :: uint64))) = ''9223372036854775808''"
    by (simp add: FormatUint.simps[of "numeral n" for n] digit_chars)
  have j7: "filepath_Join ''data'' ''7'' = ''data/7''"
    using Join_last_elem[of "''7''" "''data''"] by (simp add: prefix_data)
  have a: "\<exists>rest. trace (snd (loadCensusIfNotYet sample_env sample_builder 7)) =
             trace sample_builder @ OpenStorage 7 (censusPath ''data'' 7) # rest"
    using conjunct1 [OF censusPath_location [of sample_builder 7 sample_env "''data''" 7], unfolded p] n
    by blast
  have b: "censusPath ''data'' 7 = filepath_Join ''data'' ''7''"
    using censusPath_location [of sample_builder 7 sample_env "''data''" 7, unfolded f7] u1 by blast
  have c: "censusPath ''data'' 9223372036854775808 = filepath_Join ''data'' ''-9223372036854775808''"
    using censusPath_location [of sample_builder 9223372036854775808 sample_env "''data''" 7,
        unfolded fb] u2
    by blast
  have d: "censusPath ''data'' 7 \<noteq> censusPath ''data'' 8"
    using censusPath_location [of sample_builder 7 sample_env "''data''" 8] by auto
  show ?thesis using n a u1 b j7 u2 c d by blast
qed

text \<open>
  C8 as stated fails from 2^63 on: census 9223372036854775808 under the directory
  \<open>data\<close> is stored at \<open>data/-9223372036854775808\<close>, which is not the directory joined
  with the unsigned decimal string of the identifier.
\<close>

theorem censusPath_signed_decimal:
  "censusPath ''data'' 9223372036854775808 = ''data/-9223372036854775808'' \<and>
   filepath_Join ''data'' (FormatUint (unat (9223372036854775808 :: uint64))) = ''data/9223372036854775808''"
proof -
  have a: "Itoa (sint (9223372036854775808 :: uint64)) = ''-9223372036854775808''"
    by (simp add: Itoa_def FormatUint.simps[of "numeral n" for n] digit_chars)
  have b: "FormatUint (unat (9223372036854775808 :: uint64)) = ''9223372036854775808''"
    by (simp add: FormatUint.simps[of "numeral n" for n] digit_chars)
  have c: "filepath_Join ''data'' ''9223372036854775808'' = path_prefix ''data'' @ ''9223372036854775808''"
    by (rule Join_last_elem) simp_all
  show ?thesis
    unfolding censusPath_prefix a b c prefix_data by simp
qed

section \<open>The ledger of vote packages\<close>

lemma copy64_id: "length b = 64 \<Longrightarrow> copy64 b = b"
  by (simp add: copy64_def)

lemma mset_select:
  "mset (select_by_root r root) = mset (filter (\<lambda>x. censusRoot x = root) (votepackages r))"
  by (simp add: select_by_root_def)

lemma set_select:
  "set (select_by_root r root) = {x \<in> set (votepackages r). censusRoot x = root}"
  by (auto simp add: select_by_root_def)

lemma select_descending:
  "sorted_wrt (\<lambda>a b. insertedDatetime b \<le> insertedDatetime a) (select_by_root r root)"
proof -
  have "sorted (map (\<lambda>x. - int (insertedDatetime x)) (select_by_root r root))"
    by (simp add: select_by_root_def)
  then show ?thesis by (simp add: sorted_map)
qed

lemma filter_same_key:
  assumes "k \<in> set zs" and "distinct zs" and "\<And>x. x \<in> set zs \<Longrightarrow> f x = f k \<Longrightarrow> x = k"
  shows "filter (\<lambda>x. f k = f x) zs = [k]"
  using assms
proof (induction zs)
  case Nil
  then show ?case by simp
next
  case (Cons z zs)
  show ?case
  proof (cases "z = k")
    case True
    then have nk: "k \<notin> set zs" using Cons.prems(2) by simp
    have "\<forall>x\<in>set zs. f k \<noteq> f x"
    proof (intro ballI notI)
      fix x assume x: "x \<in> set zs" and "f k = f x"
      then have "x = k" using Cons.prems(3)[of x] by simp
      then show False using nk x by simp
    qed
    then have "filter (\<lambda>x. f k = f x) zs = []"
      by (simp add: filter_empty_conv)
    then show ?thesis using True by simp
  next
    case False
    then have "f z \<noteq> f k" using Cons.prems(3)[of z] by auto
    moreover have "filter (\<lambda>x. f k = f x) zs = [k]"
      using Cons.IH Cons.prems False by auto
    ultimately show ?thesis by simp
  qed
qed

lemma increasing_distinct:
  assumes "sorted_wrt (\<lambda>a b. insertedDatetime a < insertedDatetime b) (rows :: votepackages_row list)"
  shows "distinct rows" and "\<And>x y. x \<in> set rows \<Longrightarrow> y \<in> set rows \<Longrightarrow> insertedDatetime x = insertedDatetime y \<Longrightarrow> x = y"
proof -
  have "sorted_wrt (<) (map insertedDatetime rows)"
    using assms by (simp add: sorted_wrt_map)
  then have d: "distinct (map insertedDatetime rows)"
    using strict_sorted_iff by blast
  then show "distinct rows" by (simp add: distinct_map)
  show "\<And>x y. x \<in> set rows \<Longrightarrow> y \<in> set rows \<Longrightarrow> insertedDatetime x = insertedDatetime y \<Longrightarrow> x = y"
    using d by (meson distinct_map inj_onD)
qed

lemma select_newest_first:
  assumes "sorted_wrt (\<lambda>a b. insertedDatetime a < insertedDatetime b) (votepackages r)"
  shows "select_by_root r root = rev (filter (\<lambda>x. censusRoot x = root) (votepackages r))"
proof -
  let ?P = "\<lambda>x. censusRoot x = root"
  let ?f = "\<lambda>x. - int (insertedDatetime x)"
  let ?xs = "filter ?P (sort_key indx (votepackages r))"
  let ?ys = "rev (filter ?P (votepackages r))"
  have m: "mset ?ys = mset ?xs" by simp
  have dr: "distinct (votepackages r)" using increasing_distinct(1)[OF assms] .
  have inj: "\<And>x y. x \<in> set (votepackages r) \<Longrightarrow> y \<in> set (votepackages r) \<Longrightarrow>
               ?f x = ?f y \<Longrightarrow> x = y"
    using increasing_distinct(2)[OF assms] by simp
  have s: "sorted (map ?f ?ys)"
  proof -
    have "sorted_wrt (\<lambda>a b. insertedDatetime a < insertedDatetime b) (filter ?P (votepackages r))"
      using assms by (rule sorted_wrt_filter)
    then have "sorted_wrt (\<lambda>a b. insertedDatetime b < insertedDatetime a) ?ys"
      by (simp add: sorted_wrt_rev)
    then have "sorted_wrt (\<lambda>a b. ?f a \<le> ?f b) ?ys"
      by (rule sorted_wrt_mono_rel[rotated]) simp
    then show ?thesis by (simp add: sorted_map)
  qed
  have e: "\<And>k. k \<in> set ?ys \<Longrightarrow> filter (\<lambda>x. ?f k = ?f x) ?ys = filter (\<lambda>x. ?f k = ?f x) ?xs"
  proof -
    fix k assume k: "k \<in> set ?ys"
    have "filter (\<lambda>x. ?f k = ?f x) ?ys = [k]"
      using k dr inj by (intro filter_same_key) auto
    moreover have "filter (\<lambda>x. ?f k = ?f x) ?xs = [k]"
      using k dr inj by (intro filter_same_key) auto
    ultimately show "filter (\<lambda>x. ?f k = ?f x) ?ys = filter (\<lambda>x. ?f k = ?f x) ?xs" by simp
  qed
  show ?thesis
    unfolding select_by_root_def using m e s by (rule properties_for_sort_key)
qed

lemma store_success:
  assumes "StoreVotePackage now r root v = (None, r1)"
  shows "migrated r" and "r1 = r\<lparr>votepackages := votepackages r @ [new_row now root v]\<rparr>"
  using assms by (auto simp add: StoreVotePackage_def no_such_table_def split: if_splits)

lemma scan_new_row: "length (Signature v) = 64 \<Longrightarrow> scan_row (new_row now root v) = v"
  by (simp add: scan_row_def new_row_def copy64_id)

lemma fresh_ledger_simps: "migrated fresh_ledger" "votepackages fresh_ledger = []"
  by (simp_all add: fresh_ledger_def Migrate_def)

lemma sample_package_simps:
  "length (Signature (sample_package k)) = 64"
  "Index (CensusProof (sample_package k)) = int k"
  "PublicKey (CensusProof (sample_package k)) = [of_nat k]"
  "MerkleProof (CensusProof (sample_package k)) = [of_nat k, of_nat k]"
  by (simp_all add: sample_package_def)

text \<open>
  C3. On a migrated ledger in which no row has the index, the public key or the Merkle
  proof of a first package (a fresh ledger in particular), storing the first package
  succeeds, and storing after it a second package that repeats the first one's index, or
  its public key, or its Merkle proof, fails with a constraint violation, under any
  census root. The failed call leaves the ledger as it was: reading the first package's
  census root still returns the first package, unchanged (alone, on a ledger that was
  empty). The signature is a 64-byte array.
\<close>

theorem StoreVotePackage_unique:
  assumes "migrated r"
    and "\<forall>x \<in> set (votepackages r).
           indx x \<noteq> Index (CensusProof v1) \<and> publicKey x \<noteq> PublicKey (CensusProof v1) \<and>
           merkleproof x \<noteq> MerkleProof (CensusProof v1)"
    and "Index (CensusProof v2) = Index (CensusProof v1) \<or>
         PublicKey (CensusProof v2) = PublicKey (CensusProof v1) \<or>
         MerkleProof (CensusProof v2) = MerkleProof (CensusProof v1)"
    and "length (Signature v1) = 64"
  shows "\<exists>r1. StoreVotePackage t1 r root1 v1 = (None, r1) \<and>
           (\<exists>col. StoreVotePackage t2 r1 root2 v2 = (Some (ConstraintViolation col), r1)) \<and>
           (\<exists>vs. ReadVotePackagesByCensusRoot r1 root1 = Inr vs \<and> v1 \<in> set vs) \<and>
           (votepackages r = [] \<longrightarrow> ReadVotePackagesByCensusRoot r1 root1 = Inr [v1])"
proof -
  let ?r1 = "r\<lparr>votepackages := votepackages r @ [new_row t1 root1 v1]\<rparr>"
  have s1: "StoreVotePackage t1 r root1 v1 = (None, ?r1)"
    using assms(1,2) by (simp add: StoreVotePackage_def)
  have m1: "migrated ?r1" using assms(1) by simp
  have in1: "new_row t1 root1 v1 \<in> set (votepackages ?r1)" by simp
  have s2: "\<exists>col. StoreVotePackage t2 ?r1 root2 v2 = (Some (ConstraintViolation col), ?r1)"
    using assms(3) m1
    by (auto simp add: StoreVotePackage_def new_row_def)
  have "new_row t1 root1 v1 \<in> set (select_by_root ?r1 root1)"
    by (simp add: set_select) (simp add: new_row_def)
  then have "v1 \<in> set (map scan_row (select_by_root ?r1 root1))"
    using scan_new_row[OF assms(4), of t1 root1] by (metis image_eqI set_map)
  then have rd: "\<exists>vs. ReadVotePackagesByCensusRoot ?r1 root1 = Inr vs \<and> v1 \<in> set vs"
    using m1 by (simp add: ReadVotePackagesByCensusRoot_def)
  have fresh: "votepackages r = [] \<longrightarrow> ReadVotePackagesByCensusRoot ?r1 root1 = Inr [v1]"
    using m1 scan_new_row[OF assms(4), of t1 root1]
    by (simp add: ReadVotePackagesByCensusRoot_def select_by_root_def) (simp add: new_row_def)
  show ?thesis using s1 s2 rd fresh by blast
qed

theorem StoreVotePackage_unique_witness:
  "migrated fresh_ledger \<and> votepackages fresh_ledger = [] \<and>
   length (Signature (sample_package 1)) = 64 \<and>
   PublicKey (CensusProof ((sample_package 2)\<lparr>CensusProof := (CensusProof (sample_package 2))\<lparr>PublicKey := [1]\<rparr>\<rparr>))
     = PublicKey (CensusProof (sample_package 1)) \<and>
   (\<exists>r1. StoreVotePackage 100 fresh_ledger [9] (sample_package 1) = (None, r1) \<and>
      (\<exists>col. StoreVotePackage 200 r1 [8]
                ((sample_package 2)\<lparr>CensusProof := (CensusProof (sample_package 2))\<lparr>PublicKey := [1]\<rparr>\<rparr>)
              = (Some (ConstraintViolation col), r1)) \<and>
      ReadVotePackagesByCensusRoot r1 [9] = Inr [sample_package 1])"
proof -
  let ?v2 = "(sample_package 2)\<lparr>CensusProof := (CensusProof (sample_package 2))\<lparr>PublicKey := [1]\<rparr>\<rparr>"
  have h2: "\<forall>x \<in> set (votepackages fresh_ledger).
           indx x \<noteq> Index (CensusProof (sample_package 1)) \<and>
           publicKey x \<noteq> PublicKey (CensusProof (sample_package 1)) \<and>
           merkleproof x \<noteq> MerkleProof (CensusProof (sample_package 1))"
    by (simp add: fresh_ledger_simps)
  have h3: "Index (CensusProof ?v2) = Index (CensusProof (sample_package 1)) \<or>
         PublicKey (CensusProof ?v2) = PublicKey (CensusProof (sample_package 1)) \<or>
         MerkleProof (CensusProof ?v2) = MerkleProof (CensusProof (sample_package 1))"
    by (simp add: sample_package_simps)
  show ?thesis
    using StoreVotePackage_unique [OF fresh_ledger_simps(1) h2 h3 sample_package_simps(1), of 100 "[9]" 200 "[8]"]
    by (simp add: fresh_ledger_simps sample_package_simps) blast
qed

text \<open>
  C4, as amended. \<open>ReadVotePackagesByCensusRoot\<close> returns the packages of exactly the rows
  stored with that census root, each once, ordered by insertion timestamp descending.
  When the timestamps of the stored rows grow strictly with the insertions, this is the
  reverse of the insertion order; in particular for S1, S2, S3 stored in this order under
  one root at strictly increasing seconds into an empty ledger it returns [S3, S2, S1].
  Nothing is said about the order of packages stored within the same second.
\<close>

theorem ReadVotePackagesByCensusRoot_order:
  assumes "migrated r"
  shows "ReadVotePackagesByCensusRoot r root = Inr (map scan_row (select_by_root r root)) \<and>
         mset (select_by_root r root) = mset (filter (\<lambda>x. censusRoot x = root) (votepackages r)) \<and>
         sorted_wrt (\<lambda>a b. insertedDatetime b \<le> insertedDatetime a) (select_by_root r root) \<and>
         (sorted_wrt (\<lambda>a b. insertedDatetime a < insertedDatetime b) (votepackages r) \<longrightarrow>
            ReadVotePackagesByCensusRoot r root =
              Inr (rev (map scan_row (filter (\<lambda>x. censusRoot x = root) (votepackages r))))) \<and>
         (votepackages r = [] \<and> t1 < t2 \<and> t2 < t3 \<and>
          StoreVotePackage t1 r root s1 = (None, r1) \<and>
          StoreVotePackage t2 r1 root s2 = (None, r2) \<and>
          StoreVotePackage t3 r2 root s3 = (None, r3) \<and>
          length (Signature s1) = 64 \<and> length (Signature s2) = 64 \<and> length (Signature s3) = 64 \<longrightarrow>
            ReadVotePackagesByCensusRoot r3 root = Inr [s3, s2, s1])"
proof -
  have a: "ReadVotePackagesByCensusRoot r root = Inr (map scan_row (select_by_root r root))"
    using assms by (simp add: ReadVotePackagesByCensusRoot_def)
  have b: "sorted_wrt (\<lambda>a b. insertedDatetime a < insertedDatetime b) (votepackages r) \<longrightarrow>
            ReadVotePackagesByCensusRoot r root =
              Inr (rev (map scan_row (filter (\<lambda>x. censusRoot x = root) (votepackages r))))"
    using a by (simp add: select_newest_first rev_map)
  have c: "ReadVotePackagesByCensusRoot r3 root = Inr [s3, s2, s1]"
    if e: "votepackages r = []" and t: "t1 < t2" "t2 < t3"
      and st: "StoreVotePackage t1 r root s1 = (None, r1)" "StoreVotePackage t2 r1 root s2 = (None, r2)"
        "StoreVotePackage t3 r2 root s3 = (None, r3)"
      and l: "length (Signature s1) = 64" "length (Signature s2) = 64" "length (Signature s3) = 64"
  proof -
    have rows: "votepackages r3 = [new_row t1 root s1, new_row t2 root s2, new_row t3 root s3]"
      and m3: "migrated r3"
      using store_success[OF st(1)] store_success[OF st(2)] store_success[OF st(3)] e by simp_all
    have inc: "sorted_wrt (\<lambda>a b. insertedDatetime a < insertedDatetime b) (votepackages r3)"
      using t by (simp add: rows new_row_def)
    have "select_by_root r3 root = rev (filter (\<lambda>x. censusRoot x = root) (votepackages r3))"
      using inc by (rule select_newest_first)
    also have "\<dots> = [new_row t3 root s3, new_row t2 root s2, new_row t1 root s1]"
      by (simp add: rows) (simp add: new_row_def)
    finally show ?thesis
      using m3 l by (simp add: ReadVotePackagesByCensusRoot_def scan_new_row)
  qed
  show ?thesis
    using a b c mset_select[of r root] select_descending[of r root] by blast
qed

theorem ReadVotePackagesByCensusRoot_order_witness:
  "migrated fresh_ledger \<and> votepackages fresh_ledger = [] \<and> (100::nat) < 101 \<and> (101::nat) < 102 \<and>
   (\<exists>r1 r2 r3.
      StoreVotePackage 100 fresh_ledger [9] (sample_package 1) = (None, r1) \<and>
      StoreVotePackage 101 r1 [9] (sample_package 2) = (None, r2) \<and>
      StoreVotePackage 102 r2 [9] (sample_package 3) = (None, r3) \<and>
      sorted_wrt (\<lambda>a b. insertedDatetime a < insertedDatetime b) (votepackages r3) \<and>
      ReadVotePackagesByCensusRoot r3 [9] = Inr [sample_package 3, sample_package 2, sample_package 1])"
proof -
  let ?r1 = "fresh_ledger\<lparr>votepackages := [new_row 100 [9] (sample_package 1)]\<rparr>"
  let ?r2 = "fresh_ledger\<lparr>votepackages := [new_row 100 [9] (sample_package 1), new_row 101 [9] (sample_package 2)]\<rparr>"
  let ?r3 = "fresh_ledger\<lparr>votepackages := [new_row 100 [9] (sample_package 1), new_row 101 [9] (sample_package 2),
                new_row 102 [9] (sample_package 3)]\<rparr>"
  have s1: "StoreVotePackage 100 fresh_ledger [9] (sample_package 1) = (None, ?r1)"
    by (simp add: StoreVotePackage_def fresh_ledger_simps)
  have s2: "StoreVotePackage 101 ?r1 [9] (sample_package 2) = (None, ?r2)"
    by (simp add: StoreVotePackage_def fresh_ledger_simps new_row_def sample_package_simps)
  have s3: "StoreVotePackage 102 ?r2 [9] (sample_package 3) = (None, ?r3)"
    by (simp add: StoreVotePackage_def fresh_ledger_simps new_row_def sample_package_simps)
  have inc: "sorted_wrt (\<lambda>a b. insertedDatetime a < insertedDatetime b) (votepackages ?r3)"
    by (simp add: new_row_def)
  have rd: "ReadVotePackagesByCensusRoot ?r3 [9] = Inr [sample_package 3, sample_package 2, sample_package 1]"
    using ReadVotePackagesByCensusRoot_order [OF fresh_ledger_simps(1), of "[9]" 100 101 102
        "sample_package 1" ?r1 "sample_package 2" ?r2 "sample_package 3" ?r3]
      s1 s2 s3 fresh_ledger_simps(2) sample_package_simps(1)
    by simp
  have ex: "\<exists>r1 r2 r3.
      StoreVotePackage 100 fresh_ledger [9] (sample_package 1) = (None, r1) \<and>
      StoreVotePackage 101 r1 [9] (sample_package 2) = (None, r2) \<and>
      StoreVotePackage 102 r2 [9] (sample_package 3) = (None, r3) \<and>
      sorted_wrt (\<lambda>a b. insertedDatetime a < insertedDatetime b) (votepackages r3) \<and>
      ReadVotePackagesByCensusRoot r3 [9] = Inr [sample_package 3, sample_package 2, sample_package 1]"
    using s1 s2 s3 inc rd by blast
  show ?thesis
    using ex fresh_ledger_simps by simp
qed

text \<open>
  C4 as stated fails when the insertions fall into the same second (\<open>CURRENT_TIMESTAMP\<close>
  counts whole seconds): three packages stored one after the other at second 100 under
  one root are returned in the order of their rows, [S1, S2, S3], not [S3, S2, S1].
\<close>

theorem ReadVotePackagesByCensusRoot_same_second:
  "StoreVotePackage 100 fresh_ledger [9] (sample_package 1) =
     (None, fresh_ledger\<lparr>votepackages := [new_row 100 [9] (sample_package 1)]\<rparr>) \<and>
   StoreVotePackage 100 (fresh_ledger\<lparr>votepackages := [new_row 100 [9] (sample_package 1)]\<rparr>) [9] (sample_package 2) =
     (None, fresh_ledger\<lparr>votepackages := [new_row 100 [9] (sample_package 1),
                                           new_row 100 [9] (sample_package 2)]\<rparr>) \<and>
   StoreVotePackage 100 (fresh_ledger\<lparr>votepackages := [new_row 100 [9] (sample_package 1),
                                           new_row 100 [9] (sample_package 2)]\<rparr>) [9] (sample_package 3) =
     (None, fresh_ledger\<lparr>votepackages := [new_row 100 [9] (sample_package 1),
                                           new_row 100 [9] (sample_package 2),
                                           new_row 100 [9] (sample_package 3)]\<rparr>) \<and>
   ReadVotePackagesByCensusRoot
     (fresh_ledger\<lparr>votepackages := [new_row 100 [9] (sample_package 1),
                                     new_row 100 [9] (sample_package 2),
                                     new_row 100 [9] (sample_package 3)]\<rparr>) [9]
     = Inr [sample_package 1, sample_package 2, sample_package 3] \<and>
   [sample_package 1, sample_package 2, sample_package 3]
     \<noteq> [sample_package 3, sample_package 2, sample_package 1]"
proof -
  let ?r1 = "fresh_ledger\<lparr>votepackages := [new_row 100 [9] (sample_package 1)]\<rparr>"
  let ?r2 = "fresh_ledger\<lparr>votepackages := [new_row 100 [9] (sample_package 1),
                                           new_row 100 [9] (sample_package 2)]\<rparr>"
  let ?r3 = "fresh_ledger\<lparr>votepackages := [new_row 100 [9] (sample_package 1),
                                           new_row 100 [9] (sample_package 2),
                                           new_row 100 [9] (sample_package 3)]\<rparr>"
  have s1: "StoreVotePackage 100 fresh_ledger [9] (sample_package 1) = (None, ?r1)"
    by (simp add: StoreVotePackage_def fresh_ledger_simps)
  have s2: "StoreVotePackage 100 ?r1 [9] (sample_package 2) = (None, ?r2)"
    by (simp add: StoreVotePackage_def fresh_ledger_simps new_row_def sample_package_simps)
  have s3: "StoreVotePackage 100 ?r2 [9] (sample_package 3) = (None, ?r3)"
    by (simp add: StoreVotePackage_def fresh_ledger_simps new_row_def sample_package_simps)
  have sc: "\<And>k t. scan_row (new_row t [9] (sample_package k)) = sample_package k"
    by (rule scan_new_row) (rule sample_package_simps)
  have sel: "select_by_root ?r3 [9]
     = [new_row 100 [9] (sample_package 1), new_row 100 [9] (sample_package 2),
        new_row 100 [9] (sample_package 3)]"
    by (simp add: select_by_root_def new_row_def sample_package_simps)
  have rd: "ReadVotePackagesByCensusRoot ?r3 [9]
     = Inr [sample_package 1, sample_package 2, sample_package 3]"
    unfolding ReadVotePackagesByCensusRoot_def sel by (simp add: fresh_ledger_simps sc)
  have "Index (CensusProof (sample_package 1)) \<noteq> Index (CensusProof (sample_package 3))"
    by (simp add: sample_package_simps)
  then have "sample_package 1 \<noteq> sample_package 3" by auto
  then have ne: "[sample_package 1, sample_package 2, sample_package 3]
     \<noteq> [sample_package 3, sample_package 2, sample_package 1]" by simp
  show ?thesis
    using s1 s2 s3 rd ne by (intro conjI)
qed

end
